theory Spec2Isabelle
  imports
    Complex_Main
    "HOL-Library.Word"
    "HOL-Library.Signed_Division"
    "HOL-Library.Log_Nat"
begin

section \<open>Data model\<close>

text \<open>
  The program is \<^verbatim>\<open>cvDisplacementMapFilter/main.cpp\<close>: a channel selector
  (\<^verbatim>\<open>getComponent\<close>), a displacement remapper (\<^verbatim>\<open>displacementMapFilter\<close>)
  and an alpha compositor (\<^verbatim>\<open>overlayImage\<close>) over OpenCV matrices of 8-bit channels.

  Everything the C++ leaves undefined is a value of type \<open>fault\<close>: an index outside
  a matrix or outside its buffer, an \<^verbatim>\<open>int\<close> computation that leaves the range
  of a 32-bit \<^verbatim>\<open>int\<close>, and a \<^verbatim>\<open>double\<close> converted to \<^verbatim>\<open>unsigned char\<close>
  whose truncated value does not fit. A function that returns \<open>Inl f\<close> stands for
  a run of the program that has left defined behaviour at that point.

  An \<^verbatim>\<open>int\<close> is an integer between \<open>INT_MIN\<close> and \<open>INT_MAX\<close>; the results of
  the subtractions, of the multiplication and of the additions that the code makes
  on \<^verbatim>\<open>int\<close>s are checked with \<open>int32\<close>. A loop counter stays below a dimension,
  so its increment needs no check. In an offset into \<open>data\<close> such as
  \<^verbatim>\<open>fY * foreground.step + fX * foreground.channels() + c\<close> the product of the
  column and the channel count is a product of two \<^verbatim>\<open>int\<close>s and is checked
  with \<open>int32\<close> as well; the product with \<open>step\<close> and the two sums are computed
  in \<^verbatim>\<open>size_t\<close>, and are integers compared with the length of the buffer.
\<close>

type_synonym u8 = "8 word"

datatype fault = OutOfRange | SignedOverflow | Unrepresentable

text \<open>
  A \<^verbatim>\<open>cv::Mat\<close> with at most two dimensions: \<open>rows\<close>, \<open>cols\<close>, the type code
  \<open>mtype\<close> (depth in the low three bits, channel count minus one above them), the
  distance \<open>step\<close> in bytes between the starts of two consecutive rows, and the
  bytes \<open>data\<close> that can be reached from the matrix's data pointer. A region of
  interest of a larger matrix has a \<open>step\<close> larger than its own row.
\<close>

record Mat =
  rows :: int
  cols :: int
  mtype :: int
  step :: int
  data :: "u8 list"

definition CV_8UC3 :: int where
  "CV_8UC3 = 16"

definition CV_8UC4 :: int where
  "CV_8UC4 = 24"

definition channels :: "Mat \<Rightarrow> int" where
  "channels m = mtype m div 8 + 1"

definition INT_MIN :: int where
  "INT_MIN = - (2 ^ 31)"

definition INT_MAX :: int where
  "INT_MAX = 2 ^ 31 - 1"

text \<open>The result of an \<^verbatim>\<open>int\<close> operation, a fault when it is not an \<^verbatim>\<open>int\<close>.\<close>

definition int32 :: "int \<Rightarrow> fault + int" where
  "int32 v = (if INT_MIN \<le> v \<and> v \<le> INT_MAX then Inr v else Inl SignedOverflow)"

text \<open>\<^verbatim>\<open>m.data[i]\<close>, read and written.\<close>

definition byte_at :: "Mat \<Rightarrow> int \<Rightarrow> fault + u8" where
  "byte_at m i =
     (if 0 \<le> i \<and> i < int (length (data m)) then Inr (data m ! nat i) else Inl OutOfRange)"

definition set_byte :: "Mat \<Rightarrow> int \<Rightarrow> u8 \<Rightarrow> fault + Mat" where
  "set_byte m i v =
     (if 0 \<le> i \<and> i < int (length (data m))
      then Inr (m\<lparr>data := (data m)[nat i := v]\<rparr>) else Inl OutOfRange)"

text \<open>
  \<^verbatim>\<open>cv::Vec3b\<close> and \<^verbatim>\<open>cv::Vec4b\<close>, and \<^verbatim>\<open>m.at<T>(i0, i1)\<close>: the element of
  row \<open>i0\<close> and column \<open>i1\<close>, which OpenCV defines for \<open>0 \<le> i0 < rows\<close> and
  \<open>0 \<le> i1 < cols\<close> only, at the address \<open>data + i0 * step + i1 * sizeof(T)\<close>.
\<close>

type_synonym Vec3b = "u8 \<times> u8 \<times> u8"

type_synonym Vec4b = "u8 \<times> u8 \<times> u8 \<times> u8"

definition at_Vec3b :: "Mat \<Rightarrow> int \<Rightarrow> int \<Rightarrow> fault + Vec3b" where
  "at_Vec3b m i0 i1 =
     (if 0 \<le> i0 \<and> i0 < rows m \<and> 0 \<le> i1 \<and> i1 < cols m then
        (case byte_at m (i0 * step m + i1 * 3) of Inl e \<Rightarrow> Inl e | Inr b0 \<Rightarrow>
        (case byte_at m (i0 * step m + i1 * 3 + 1) of Inl e \<Rightarrow> Inl e | Inr b1 \<Rightarrow>
        (case byte_at m (i0 * step m + i1 * 3 + 2) of Inl e \<Rightarrow> Inl e | Inr b2 \<Rightarrow>
           Inr (b0, b1, b2))))
      else Inl OutOfRange)"

definition at_Vec4b :: "Mat \<Rightarrow> int \<Rightarrow> int \<Rightarrow> fault + Vec4b" where
  "at_Vec4b m i0 i1 =
     (if 0 \<le> i0 \<and> i0 < rows m \<and> 0 \<le> i1 \<and> i1 < cols m then
        (case byte_at m (i0 * step m + i1 * 4) of Inl e \<Rightarrow> Inl e | Inr b0 \<Rightarrow>
        (case byte_at m (i0 * step m + i1 * 4 + 1) of Inl e \<Rightarrow> Inl e | Inr b1 \<Rightarrow>
        (case byte_at m (i0 * step m + i1 * 4 + 2) of Inl e \<Rightarrow> Inl e | Inr b2 \<Rightarrow>
        (case byte_at m (i0 * step m + i1 * 4 + 3) of Inl e \<Rightarrow> Inl e | Inr b3 \<Rightarrow>
           Inr (b0, b1, b2, b3)))))
      else Inl OutOfRange)"

definition set_Vec4b :: "Mat \<Rightarrow> int \<Rightarrow> int \<Rightarrow> Vec4b \<Rightarrow> fault + Mat" where
  "set_Vec4b m i0 i1 v =
     (if 0 \<le> i0 \<and> i0 < rows m \<and> 0 \<le> i1 \<and> i1 < cols m then
        (case v of (b0, b1, b2, b3) \<Rightarrow>
        (case set_byte m (i0 * step m + i1 * 4) b0 of Inl e \<Rightarrow> Inl e | Inr m0 \<Rightarrow>
        (case set_byte m0 (i0 * step m + i1 * 4 + 1) b1 of Inl e \<Rightarrow> Inl e | Inr m1 \<Rightarrow>
        (case set_byte m1 (i0 * step m + i1 * 4 + 2) b2 of Inl e \<Rightarrow> Inl e | Inr m2 \<Rightarrow>
           set_byte m2 (i0 * step m + i1 * 4 + 3) b3))))
      else Inl OutOfRange)"

text \<open>
  \<^verbatim>\<open>output.create(rows, cols, type)\<close> for an 8-bit type: a matrix of that shape
  with a buffer of its own, rows stored one after the other. Its bytes are not
  initialised by OpenCV; they are zero here, and the remapper writes every one of
  them before it returns. (OpenCV keeps the buffer of an \<open>output\<close> that has the
  shape already; the pixels written are the same. The driver passes an empty
  matrix.)
\<close>

definition create :: "int \<Rightarrow> int \<Rightarrow> int \<Rightarrow> Mat" where
  "create r c t =
     \<lparr>rows = r, cols = c, mtype = t, step = c * (t div 8 + 1),
      data = replicate (nat (r * (c * (t div 8 + 1)))) 0\<rparr>"

text \<open>
  The class invariant of a matrix of 8-bit channels whose dimensions are
  \<^verbatim>\<open>int\<close>s: every row lies inside the buffer.
\<close>

definition mat_ok :: "Mat \<Rightarrow> bool" where
  "mat_ok m \<longleftrightarrow>
     0 \<le> rows m \<and> rows m \<le> INT_MAX \<and> 0 \<le> cols m \<and> cols m \<le> INT_MAX \<and>
     0 \<le> mtype m \<and> mtype m mod 8 = 0 \<and>
     cols m * channels m \<le> step m \<and>
     (rows m = 0 \<or> (rows m - 1) * step m + cols m * channels m \<le> int (length (data m)))"

section \<open>The channel selector\<close>

text \<open>
  Text written to \<^verbatim>\<open>std::cout\<close> is a list of lines, passed in and returned.
  \<open>show_int\<close> is the decimal text that \<^verbatim>\<open><<\<close> prints for an \<^verbatim>\<open>int\<close>.
\<close>

fun show_nat :: "nat \<Rightarrow> string" where
  "show_nat n =
     (if n < 10 then [char_of (48 + n)]
      else show_nat (n div 10) @ [char_of (48 + n mod 10)])"

definition show_int :: "int \<Rightarrow> string" where
  "show_int i = (if i < 0 then CHR ''-'' # show_nat (nat (- i)) else show_nat (nat i))"

definition getComponent :: "Vec3b \<Rightarrow> int \<Rightarrow> string list \<Rightarrow> u8 \<times> string list" where
  "getComponent bgr_pixel bgr_component cout =
     (case bgr_pixel of (b, g, r) \<Rightarrow>
        if bgr_component = 0 then (b, cout)
        else if bgr_component = 1 then (g, cout)
        else if bgr_component = 2 then (r, cout)
        else (0, cout @ [''!!! getComponent: '' @ show_int bgr_component
                           @ '' is not a valid component'']))"

section \<open>The displacement remapper\<close>

text \<open>
  \<^verbatim>\<open>(c - 128) * scale / 256\<close> on \<^verbatim>\<open>int\<close>: the component is promoted to
  \<^verbatim>\<open>int\<close>, and the division truncates towards zero.
\<close>

definition displacement :: "u8 \<Rightarrow> int \<Rightarrow> fault + int" where
  "displacement c scale =
     (case int32 ((uint c - 128) * scale) of Inl e \<Rightarrow> Inl e | Inr p \<Rightarrow> Inr (p sdiv 256))"

text \<open>
  The body of the two loops. The source names the row index \<open>x\<close> and the column
  index \<open>y\<close>, and so does the model.
\<close>

definition remap_pixel ::
  "Mat \<Rightarrow> Mat \<Rightarrow> int \<Rightarrow> int \<Rightarrow> int \<Rightarrow> int \<Rightarrow> int \<Rightarrow> int \<Rightarrow> Mat \<times> string list
     \<Rightarrow> fault + Mat \<times> string list" where
  "remap_pixel map_mat target componentX componentY scaleX scaleY x y s =
     (case s of (output, cout) \<Rightarrow>
     (case at_Vec3b map_mat x y of Inl e \<Rightarrow> Inl e | Inr px \<Rightarrow>
     (case getComponent px componentX cout of (cx, cout1) \<Rightarrow>
     (case displacement cx scaleX of Inl e \<Rightarrow> Inl e | Inr ox \<Rightarrow>
     (case int32 (x + ox) of Inl e \<Rightarrow> Inl e | Inr dx0 \<Rightarrow>
     (let dx1 = (if dx0 < 0 then 0 else dx0);
          dx = (if dx1 \<ge> rows output then rows output else dx1)
      in
     (case at_Vec3b map_mat x y of Inl e \<Rightarrow> Inl e | Inr py \<Rightarrow>
     (case getComponent py componentY cout1 of (cy, cout2) \<Rightarrow>
     (case displacement cy scaleY of Inl e \<Rightarrow> Inl e | Inr oy \<Rightarrow>
     (case int32 (y + oy) of Inl e \<Rightarrow> Inl e | Inr dy0 \<Rightarrow>
     (let dy1 = (if dy0 < 0 then 0 else dy0);
          dy = (if dy1 \<ge> cols output then cols output else dy1)
      in
     (case at_Vec4b target dx dy of Inl e \<Rightarrow> Inl e | Inr v \<Rightarrow>
     (case set_Vec4b output x y v of Inl e \<Rightarrow> Inl e | Inr output' \<Rightarrow>
        Inr (output', cout2))))))))))))))"

lemma set_byte_shape:
  "set_byte m i v = Inr m' \<Longrightarrow>
     rows m' = rows m \<and> cols m' = cols m \<and> mtype m' = mtype m \<and> step m' = step m \<and>
     length (data m') = length (data m)"
  by (auto simp: set_byte_def split: if_splits)

lemma set_Vec4b_shape:
  assumes "set_Vec4b m i0 i1 v = Inr m'"
  shows "rows m' = rows m \<and> cols m' = cols m \<and> mtype m' = mtype m \<and> step m' = step m \<and>
     length (data m') = length (data m)"
proof -
  obtain b0 b1 b2 b3 where v: "v = (b0, b1, b2, b3)"
    by (cases v) auto
  from assms obtain m0 m1 m2 where
    "set_byte m (i0 * step m + i1 * 4) b0 = Inr m0"
    "set_byte m0 (i0 * step m + i1 * 4 + 1) b1 = Inr m1"
    "set_byte m1 (i0 * step m + i1 * 4 + 2) b2 = Inr m2"
    "set_byte m2 (i0 * step m + i1 * 4 + 3) b3 = Inr m'"
    by (auto simp: set_Vec4b_def v split: if_splits sum.splits)
  then show ?thesis
    using set_byte_shape by metis
qed

lemma remap_pixel_shape:
  assumes "remap_pixel map_mat target cX cY sX sY x y (output, cout) = Inr (output', cout')"
  shows "rows output' = rows output \<and> cols output' = cols output \<and>
     mtype output' = mtype output \<and> step output' = step output \<and>
     length (data output') = length (data output)"
proof -
  from assms obtain v where "set_Vec4b output x y v = Inr output'"
    by (auto simp: remap_pixel_def Let_def split: sum.splits prod.splits)
  then show ?thesis
    by (rule set_Vec4b_shape)
qed

function remap_cols ::
  "Mat \<Rightarrow> Mat \<Rightarrow> int \<Rightarrow> int \<Rightarrow> int \<Rightarrow> int \<Rightarrow> int \<Rightarrow> int \<Rightarrow> Mat \<times> string list
     \<Rightarrow> fault + Mat \<times> string list" where
  "remap_cols map_mat target componentX componentY scaleX scaleY x y s =
     (if y < cols (fst s) then
        (case remap_pixel map_mat target componentX componentY scaleX scaleY x y s of
           Inl e \<Rightarrow> Inl e
         | Inr s' \<Rightarrow> remap_cols map_mat target componentX componentY scaleX scaleY x (y + 1) s')
      else Inr s)"
  by pat_completeness auto
termination
proof (relation "measure (\<lambda>(map_mat, target, cX, cY, sX, sY, x, y, s). nat (cols (fst s) - y))")
  show "wf (measure (\<lambda>(map_mat, target, cX, cY, sX, sY, x, y, s). nat (cols (fst s) - y)))"
    by simp
next
  fix map_mat target :: Mat and cX cY sX sY x y :: int and s s' :: "Mat \<times> string list"
  assume lt: "y < cols (fst s)"
    and step: "remap_pixel map_mat target cX cY sX sY x y s = Inr s'"
  from step have "cols (fst s') = cols (fst s)"
    using remap_pixel_shape [of map_mat target cX cY sX sY x y "fst s" "snd s" "fst s'" "snd s'"]
    by simp
  with lt show "((map_mat, target, cX, cY, sX, sY, x, y + 1, s'), (map_mat, target, cX, cY, sX, sY, x, y, s))
      \<in> measure (\<lambda>(map_mat, target, cX, cY, sX, sY, x, y, s). nat (cols (fst s) - y))"
    by simp
qed

declare remap_cols.simps [simp del]

lemma remap_cols_shape:
  "remap_cols map_mat target cX cY sX sY x y s = Inr s' \<Longrightarrow>
     rows (fst s') = rows (fst s) \<and> cols (fst s') = cols (fst s) \<and>
     mtype (fst s') = mtype (fst s) \<and> step (fst s') = step (fst s) \<and>
     length (data (fst s')) = length (data (fst s))"
proof (induction map_mat target cX cY sX sY x y s rule: remap_cols.induct)
  case (1 map_mat target cX cY sX sY x y s)
  show ?case
  proof (cases "y < cols (fst s)")
    case False
    with "1.prems" show ?thesis
      by (simp add: remap_cols.simps [of map_mat target cX cY sX sY x y s])
  next
    case True
    with "1.prems" obtain s1 where
      px: "remap_pixel map_mat target cX cY sX sY x y s = Inr s1" and
      rest: "remap_cols map_mat target cX cY sX sY x (y + 1) s1 = Inr s'"
      by (auto simp: remap_cols.simps [of map_mat target cX cY sX sY x y s] split: sum.splits)
    from px have "rows (fst s1) = rows (fst s) \<and> cols (fst s1) = cols (fst s) \<and>
        mtype (fst s1) = mtype (fst s) \<and> step (fst s1) = step (fst s) \<and>
        length (data (fst s1)) = length (data (fst s))"
      using remap_pixel_shape [of map_mat target cX cY sX sY x y "fst s" "snd s" "fst s1" "snd s1"]
      by simp
    with "1.IH" [OF True px rest] show ?thesis
      by simp
  qed
qed

function remap_rows ::
  "Mat \<Rightarrow> Mat \<Rightarrow> int \<Rightarrow> int \<Rightarrow> int \<Rightarrow> int \<Rightarrow> int \<Rightarrow> Mat \<times> string list
     \<Rightarrow> fault + Mat \<times> string list" where
  "remap_rows map_mat target componentX componentY scaleX scaleY x s =
     (if x < rows (fst s) then
        (case remap_cols map_mat target componentX componentY scaleX scaleY x 0 s of
           Inl e \<Rightarrow> Inl e
         | Inr s' \<Rightarrow> remap_rows map_mat target componentX componentY scaleX scaleY (x + 1) s')
      else Inr s)"
  by pat_completeness auto
termination
proof (relation "measure (\<lambda>(map_mat, target, cX, cY, sX, sY, x, s). nat (rows (fst s) - x))")
  show "wf (measure (\<lambda>(map_mat, target, cX, cY, sX, sY, x, s). nat (rows (fst s) - x)))"
    by simp
next
  fix map_mat target :: Mat and cX cY sX sY x :: int and s s' :: "Mat \<times> string list"
  assume lt: "x < rows (fst s)"
    and row: "remap_cols map_mat target cX cY sX sY x 0 s = Inr s'"
  from row have "rows (fst s') = rows (fst s)"
    using remap_cols_shape by blast
  with lt show "((map_mat, target, cX, cY, sX, sY, x + 1, s'), (map_mat, target, cX, cY, sX, sY, x, s))
      \<in> measure (\<lambda>(map_mat, target, cX, cY, sX, sY, x, s). nat (rows (fst s) - x))"
    by simp
qed

declare remap_rows.simps [simp del]

text \<open>
  The remapper. \<open>output\<close> is the caller's matrix, returned as it is by the two
  early returns; \<open>size().width\<close> is \<open>cols\<close> and \<open>size().height\<close> is \<open>rows\<close>.
\<close>

definition displacementMapFilter ::
  "Mat \<Rightarrow> Mat \<Rightarrow> int \<Rightarrow> int \<Rightarrow> int \<Rightarrow> int \<Rightarrow> Mat \<Rightarrow> string list
     \<Rightarrow> fault + Mat \<times> string list" where
  "displacementMapFilter map_mat target componentX componentY scaleX scaleY output cout =
     (if componentX < 0 \<or> componentX > 2 \<or> componentY < 0 \<or> componentY > 2 then
        Inr (output, cout @
          [''!!! displacementMapFilter: componentX and componentY values must be in range [0,2]''])
      else if cols target \<noteq> cols map_mat \<or> rows target \<noteq> rows map_mat
              \<or> mtype target \<noteq> CV_8UC4 then
        Inr (output, cout @
          [''!!! displacementMapFilter: map and target need to have the same dimensions, and target type must be CV_8UC4''])
      else
        remap_rows map_mat target componentX componentY scaleX scaleY 0
          (create (rows target) (cols target) (mtype target), cout))"

section \<open>The alpha compositor\<close>

subsection \<open>Double precision\<close>

text \<open>
  A \<^verbatim>\<open>double\<close> is the rational number it denotes, and every operation on
  \<^verbatim>\<open>double\<close>s is the exact operation followed by \<open>to_double\<close>: rounding to
  53 significant bits, to the nearest value, to the even one of two nearest (IEEE 754
  binary64 in its default rounding mode). The values of the compositor lie between
  \<open>2\<^sup>-\<^sup>9\<close> and \<open>2\<^sup>8\<close> in magnitude or are zero, so that the bounds of the
  exponent play no part. \<open>binade q\<close> is the exponent \<open>e\<close> with
  \<open>2\<^sup>e \<le> \<bar>q\<bar> < 2\<^sup>e\<^sup>+\<^sup>1\<close>.
\<close>

definition round_even :: "rat \<Rightarrow> int" where
  "round_even q =
     (let f = \<lfloor>q\<rfloor>; d = q - of_int f
      in if d < 1 / 2 then f else if 1 / 2 < d then f + 1 else if even f then f else f + 1)"

definition binade :: "rat \<Rightarrow> int" where
  "binade q =
     (case quotient_of \<bar>q\<bar> of (n, d) \<Rightarrow>
        let e = bitlen n - bitlen d in if 2 powi e \<le> \<bar>q\<bar> then e else e - 1)"

definition to_double :: "rat \<Rightarrow> rat" where
  "to_double q =
     (if q = 0 then 0
      else let ulp = 2 powi (binade q - 52) in of_int (round_even (q / ulp)) * ulp)"

text \<open>
  The conversion of a \<^verbatim>\<open>double\<close> to \<^verbatim>\<open>unsigned char\<close> drops the fraction;
  C++ defines it only when the result is a value of \<^verbatim>\<open>unsigned char\<close>.
\<close>

definition to_uchar :: "rat \<Rightarrow> fault + u8" where
  "to_uchar q =
     (let t = (if 0 \<le> q then \<lfloor>q\<rfloor> else \<lceil>q\<rceil>)
      in if 0 \<le> t \<and> t \<le> 255 then Inr (word_of_int t) else Inl Unrepresentable)"

subsection \<open>The compositor\<close>

text \<open>
  \<^verbatim>\<open>background.copyTo(output)\<close>. When \<open>background\<close> has no pixels, OpenCV
  releases \<open>output\<close>: it keeps its type and has no rows, no columns and no
  bytes afterwards. Otherwise \<open>output\<close> becomes a matrix of the shape of
  \<open>background\<close> with a buffer of its own, rows stored one after the other, and
  the bytes of every row of \<open>background\<close> are copied into it: byte \<open>k\<close> of the copy
  is the byte \<open>k mod w\<close> of row \<open>k div w\<close>, for rows of \<open>w\<close> bytes. A row that is
  not inside the buffer of \<open>background\<close> is a fault.
\<close>

definition empty_mat :: "Mat \<Rightarrow> bool" where
  "empty_mat m \<longleftrightarrow> data m = [] \<or> rows m * cols m = 0"

definition copyTo :: "Mat \<Rightarrow> Mat \<Rightarrow> fault + Mat" where
  "copyTo m dst =
     (if empty_mat m then Inr (dst\<lparr>rows := 0, cols := 0, data := []\<rparr>)
      else
        let w = cols m * channels m;
            src = map (\<lambda>k. (k div w) * step m + k mod w) [0..rows m * w - 1]
        in if list_all (\<lambda>i. 0 \<le> i \<and> i < int (length (data m))) src
           then Inr \<lparr>rows = rows m, cols = cols m, mtype = mtype m, step = w,
                    data = map (\<lambda>i. data m ! nat i) src\<rparr>
           else Inl OutOfRange)"

record Point2i =
  pt_x :: int
  pt_y :: int

text \<open>
  The innermost loop, over the channels \<open>c\<close> of the output. \<open>fo\<close>, \<open>bo\<close> and \<open>oo\<close>
  are the \<^verbatim>\<open>int\<close> products \<^verbatim>\<open>fX * foreground.channels()\<close>,
  \<^verbatim>\<open>x * background.channels()\<close> and \<^verbatim>\<open>output.channels()*x\<close>.
\<close>

function blend_channels ::
  "Mat \<Rightarrow> Mat \<Rightarrow> int \<Rightarrow> int \<Rightarrow> int \<Rightarrow> int \<Rightarrow> rat \<Rightarrow> int \<Rightarrow> Mat \<Rightarrow> fault + Mat" where
  "blend_channels background foreground y x fY fX opacity c output =
     (if opacity > 0 \<and> c < channels output then
        (case int32 (fX * channels foreground) of Inl e \<Rightarrow> Inl e | Inr fo \<Rightarrow>
        (case byte_at foreground (fY * step foreground + fo + c) of
           Inl e \<Rightarrow> Inl e | Inr foregroundPx \<Rightarrow>
        (case int32 (x * channels background) of Inl e \<Rightarrow> Inl e | Inr bo \<Rightarrow>
        (case byte_at background (y * step background + bo + c) of
           Inl e \<Rightarrow> Inl e | Inr backgroundPx \<Rightarrow>
        (case to_uchar (to_double
                 (to_double (of_int (uint backgroundPx) * to_double (1 - opacity))
                  + to_double (of_int (uint foregroundPx) * opacity))) of
           Inl e \<Rightarrow> Inl e | Inr v \<Rightarrow>
        (case int32 (channels output * x) of Inl e \<Rightarrow> Inl e | Inr oo \<Rightarrow>
        (case set_byte output (y * step output + oo + c) v of
           Inl e \<Rightarrow> Inl e
         | Inr output' \<Rightarrow>
             blend_channels background foreground y x fY fX opacity (c + 1) output')))))))
      else Inr output)"
  by pat_completeness auto
termination
proof (relation "measure (\<lambda>(background, foreground, y, x, fY, fX, opacity, c, output).
                   nat (channels output - c))")
  show "wf (measure (\<lambda>(background, foreground, y, x, fY, fX, opacity, c, output).
                   nat (channels output - c)))"
    by simp
next
  fix background foreground out out' :: Mat and y x fY fX c oo :: int and opacity :: rat
    and v :: u8
  assume lt: "0 < opacity \<and> c < channels out"
    and wr: "set_byte out (y * step out + oo + c) v = Inr out'"
  from wr have "channels out' = channels out"
    using set_byte_shape [of out _ v out'] by (simp add: channels_def)
  with lt show "((background, foreground, y, x, fY, fX, opacity, c + 1, out'),
       (background, foreground, y, x, fY, fX, opacity, c, out))
      \<in> measure (\<lambda>(background, foreground, y, x, fY, fX, opacity, c, output).
                   nat (channels output - c))"
    by simp
qed

declare blend_channels.simps [simp del]

text \<open>
  The body of the loop over the columns: the opacity of the foreground pixel from
  its fourth channel, and the loop over the channels.
\<close>

definition blend_pixel :: "Mat \<Rightarrow> Mat \<Rightarrow> int \<Rightarrow> int \<Rightarrow> int \<Rightarrow> int \<Rightarrow> Mat \<Rightarrow> fault + Mat" where
  "blend_pixel background foreground y x fY fX output =
     (case int32 (fX * channels foreground) of Inl e \<Rightarrow> Inl e | Inr fo \<Rightarrow>
     (case byte_at foreground (fY * step foreground + fo + 3) of
        Inl e \<Rightarrow> Inl e
      | Inr a \<Rightarrow>
          blend_channels background foreground y x fY fX
            (to_double (of_int (uint a) / 255)) 0 output))"

text \<open>The loop over the columns \<open>x\<close> of one row; the first branch is the \<^verbatim>\<open>break\<close>.\<close>

function overlay_cols ::
  "Mat \<Rightarrow> Mat \<Rightarrow> Point2i \<Rightarrow> int \<Rightarrow> int \<Rightarrow> int \<Rightarrow> Mat \<Rightarrow> fault + Mat" where
  "overlay_cols background foreground location y fY x output =
     (if x < cols background then
        (case int32 (x - pt_x location) of Inl e \<Rightarrow> Inl e | Inr fX \<Rightarrow>
           if fX \<ge> cols foreground then Inr output
           else
             (case blend_pixel background foreground y x fY fX output of
                Inl e \<Rightarrow> Inl e
              | Inr output' \<Rightarrow>
                  overlay_cols background foreground location y fY (x + 1) output'))
      else Inr output)"
  by pat_completeness auto
termination
  by (relation "measure (\<lambda>(background, foreground, location, y, fY, x, output).
                  nat (cols background - x))") auto

declare overlay_cols.simps [simp del]

text \<open>The loop over the rows \<open>y\<close>; the first branch is the \<^verbatim>\<open>break\<close>.\<close>

function overlay_rows ::
  "Mat \<Rightarrow> Mat \<Rightarrow> Point2i \<Rightarrow> int \<Rightarrow> Mat \<Rightarrow> fault + Mat" where
  "overlay_rows background foreground location y output =
     (if y < rows background then
        (case int32 (y - pt_y location) of Inl e \<Rightarrow> Inl e | Inr fY \<Rightarrow>
           if fY \<ge> rows foreground then Inr output
           else
             (case overlay_cols background foreground location y fY
                     (max (pt_x location) 0) output of
                Inl e \<Rightarrow> Inl e
              | Inr output' \<Rightarrow> overlay_rows background foreground location (y + 1) output'))
      else Inr output)"
  by pat_completeness auto
termination
  by (relation "measure (\<lambda>(background, foreground, location, y, output).
                  nat (rows background - y))") auto

declare overlay_rows.simps [simp del]

definition overlayImage :: "Mat \<Rightarrow> Mat \<Rightarrow> Mat \<Rightarrow> Point2i \<Rightarrow> fault + Mat" where
  "overlayImage background foreground output location =
     (case copyTo background output of Inl e \<Rightarrow> Inl e | Inr output' \<Rightarrow>
        overlay_rows background foreground location (max (pt_y location) 0) output')"

subsection \<open>The full scan of the specification\<close>

text \<open>
  The specification describes the compositor as an iteration over all coordinates
  \<open>(x, y)\<close> of the background that blends where the foreground coordinate
  \<open>(x - location.x, y - location.y)\<close> lies inside the foreground, and calls the early
  exits of the code an optimisation with no observable effect. That iteration
  differs from the code in how it visits the pixels only: the foreground coordinate
  of the bounds check is an integer, and what is done at a pixel inside the
  foreground is \<open>blend_pixel\<close>, the body of the code's loop, with its
  \<^verbatim>\<open>int\<close> products.
\<close>

function full_scan_cols :: "Mat \<Rightarrow> Mat \<Rightarrow> Point2i \<Rightarrow> int \<Rightarrow> int \<Rightarrow> Mat \<Rightarrow> fault + Mat" where
  "full_scan_cols background foreground location y x output =
     (if x < cols background then
        (if 0 \<le> x - pt_x location \<and> x - pt_x location < cols foreground \<and>
            0 \<le> y - pt_y location \<and> y - pt_y location < rows foreground
         then
           (case blend_pixel background foreground y x
                   (y - pt_y location) (x - pt_x location) output of
              Inl e \<Rightarrow> Inl e
            | Inr output' \<Rightarrow> full_scan_cols background foreground location y (x + 1) output')
         else full_scan_cols background foreground location y (x + 1) output)
      else Inr output)"
  by pat_completeness auto
termination
  by (relation "measure (\<lambda>(background, foreground, location, y, x, output).
                  nat (cols background - x))") auto

declare full_scan_cols.simps [simp del]

function full_scan_rows :: "Mat \<Rightarrow> Mat \<Rightarrow> Point2i \<Rightarrow> int \<Rightarrow> Mat \<Rightarrow> fault + Mat" where
  "full_scan_rows background foreground location y output =
     (if y < rows background then
        (case full_scan_cols background foreground location y 0 output of
           Inl e \<Rightarrow> Inl e
         | Inr output' \<Rightarrow> full_scan_rows background foreground location (y + 1) output')
      else Inr output)"
  by pat_completeness auto
termination
  by (relation "measure (\<lambda>(background, foreground, location, y, output).
                  nat (rows background - y))") auto

declare full_scan_rows.simps [simp del]

definition full_scan_overlay :: "Mat \<Rightarrow> Mat \<Rightarrow> Mat \<Rightarrow> Point2i \<Rightarrow> fault + Mat" where
  "full_scan_overlay background foreground output location =
     (case copyTo background output of Inl e \<Rightarrow> Inl e | Inr output' \<Rightarrow>
        full_scan_rows background foreground location 0 output')"

text \<open>Channel \<open>c\<close> of the pixel in row \<open>y\<close> and column \<open>x\<close> of a matrix.\<close>

definition channel_at :: "Mat \<Rightarrow> int \<Rightarrow> int \<Rightarrow> int \<Rightarrow> fault + u8" where
  "channel_at m y x c = byte_at m (y * step m + x * channels m + c)"

section \<open>Concrete images\<close>

text \<open>
  The matrix of a default-constructed \<^verbatim>\<open>cv::Mat\<close>, a map of one pixel whose
  red component is 255, a map of two rows and two columns whose red component is
  128 everywhere, and targets of the same sizes.
\<close>

definition empty_Mat :: Mat where
  "empty_Mat = \<lparr>rows = 0, cols = 0, mtype = 0, step = 0, data = []\<rparr>"

definition map_1x1 :: Mat where
  "map_1x1 = \<lparr>rows = 1, cols = 1, mtype = 16, step = 3, data = [0, 0, 255]\<rparr>"

definition target_1x1 :: Mat where
  "target_1x1 = \<lparr>rows = 1, cols = 1, mtype = 24, step = 4, data = [1, 2, 3, 255]\<rparr>"

definition map_2x2 :: Mat where
  "map_2x2 = \<lparr>rows = 2, cols = 2, mtype = 16, step = 6,
               data = [7, 9, 128, 0, 255, 128, 31, 32, 128, 200, 100, 128]\<rparr>"

definition target_2x2 :: Mat where
  "target_2x2 = \<lparr>rows = 2, cols = 2, mtype = 24, step = 8,
                  data = [1, 2, 3, 255, 4, 5, 6, 128, 7, 8, 9, 0, 10, 11, 12, 64]\<rparr>"

text \<open>
  A map of four rows and four columns whose red component is 128 everywhere, and a
  target of that size whose 64 bytes are all different.
\<close>

definition map_4x4 :: Mat where
  "map_4x4 = \<lparr>rows = 4, cols = 4, mtype = 16, step = 12,
               data = concat (map (\<lambda>k. [of_nat k, of_nat (3 * k), 128]) [0..<16])\<rparr>"

definition target_4x4 :: Mat where
  "target_4x4 = \<lparr>rows = 4, cols = 4, mtype = 24, step = 16, data = map of_nat [0..<64]\<rparr>"

text \<open>
  Backgrounds of type \<open>CV_8UC3\<close>, the second one a region of interest with two
  bytes between its rows, and foregrounds of type \<open>CV_8UC4\<close> whose fourth channel
  is 0 everywhere, 255 everywhere, or mixed. The wide images have one row of
  \<open>2\<^sup>2\<^sup>9 + 1\<close> pixels.
\<close>

definition bg_1x1 :: Mat where
  "bg_1x1 = \<lparr>rows = 1, cols = 1, mtype = 16, step = 3, data = [10, 20, 30]\<rparr>"

definition fg_clear_1x1 :: Mat where
  "fg_clear_1x1 = \<lparr>rows = 1, cols = 1, mtype = 24, step = 4, data = [200, 201, 202, 0]\<rparr>"

definition bg_2x3 :: Mat where
  "bg_2x3 = \<lparr>rows = 2, cols = 3, mtype = 16, step = 11,
              data = [1, 2, 3, 4, 5, 6, 7, 8, 9, 77, 77,
                      10, 11, 12, 13, 14, 15, 16, 17, 18, 77, 77]\<rparr>"

definition fg_clear_2x2 :: Mat where
  "fg_clear_2x2 = \<lparr>rows = 2, cols = 2, mtype = 24, step = 8,
                    data = [200, 201, 202, 0, 203, 204, 205, 0,
                            206, 207, 208, 0, 209, 210, 211, 0]\<rparr>"

definition fg_wide_clear :: Mat where
  "fg_wide_clear = \<lparr>rows = 1, cols = 2 ^ 29 + 1, mtype = 24, step = 4 * (2 ^ 29 + 1),
                     data = replicate (4 * (2 ^ 29 + 1)) 0\<rparr>"

definition fg_wide_opaque :: Mat where
  "fg_wide_opaque = \<lparr>rows = 1, cols = 2 ^ 29 + 1, mtype = 24, step = 4 * (2 ^ 29 + 1),
                      data = replicate (4 * (2 ^ 29 + 1)) 255\<rparr>"

definition bg_wide :: Mat where
  "bg_wide = \<lparr>rows = 1, cols = 2 ^ 29 + 1, mtype = 16, step = 3 * (2 ^ 29 + 1),
               data = replicate (3 * (2 ^ 29 + 1)) 0\<rparr>"

definition fg_opaque_2x2 :: Mat where
  "fg_opaque_2x2 = \<lparr>rows = 2, cols = 2, mtype = 24, step = 8,
                     data = [200, 201, 202, 255, 203, 204, 205, 255,
                             206, 207, 208, 255, 209, 210, 211, 255]\<rparr>"

definition fg_mixed_2x2 :: Mat where
  "fg_mixed_2x2 = \<lparr>rows = 2, cols = 2, mtype = 24, step = 8,
                    data = [255, 255, 255, 128, 255, 255, 255, 255,
                            255, 255, 255, 0, 100, 101, 102, 255]\<rparr>"

section \<open>Matrices: reading and writing\<close>

lemma byte_at_set_byte:
  "set_byte m i v = Inr m' \<Longrightarrow> byte_at m' j = (if j = i then Inr v else byte_at m j)"
  by (auto simp: set_byte_def byte_at_def nth_list_update split: if_splits)

lemma set_byte_ok:
  "0 \<le> i \<Longrightarrow> i < int (length (data m)) \<Longrightarrow> \<exists>m'. set_byte m i v = Inr m'"
  by (simp add: set_byte_def)

lemma set_Vec4b_bytes:
  assumes "set_Vec4b m x y (b0, b1, b2, b3) = Inr m'"
  shows "byte_at m' j =
     (if j = x * step m + y * 4 then Inr b0
      else if j = x * step m + y * 4 + 1 then Inr b1
      else if j = x * step m + y * 4 + 2 then Inr b2
      else if j = x * step m + y * 4 + 3 then Inr b3
      else byte_at m j)"
proof -
  from assms obtain m0 m1 m2 where
    w0: "set_byte m (x * step m + y * 4) b0 = Inr m0" and
    w1: "set_byte m0 (x * step m + y * 4 + 1) b1 = Inr m1" and
    w2: "set_byte m1 (x * step m + y * 4 + 2) b2 = Inr m2" and
    w3: "set_byte m2 (x * step m + y * 4 + 3) b3 = Inr m'"
    by (auto simp: set_Vec4b_def split: if_splits sum.splits)
  show ?thesis
    by (simp add: byte_at_set_byte [OF w3] byte_at_set_byte [OF w2]
        byte_at_set_byte [OF w1] byte_at_set_byte [OF w0])
qed

lemma set_Vec4b_ok:
  assumes "0 \<le> x" "x < rows m" "0 \<le> y" "y < cols m"
    and "0 \<le> x * step m + y * 4" "x * step m + y * 4 + 3 < int (length (data m))"
  shows "\<exists>m'. set_Vec4b m x y v = Inr m'"
proof -
  obtain b0 b1 b2 b3 where v: "v = (b0, b1, b2, b3)"
    by (cases v) auto
  let ?i = "x * step m + y * 4"
  from assms obtain m0 where w0: "set_byte m ?i b0 = Inr m0"
    using set_byte_ok [of ?i m b0] by auto
  from assms set_byte_shape [OF w0] obtain m1 where w1: "set_byte m0 (?i + 1) b1 = Inr m1"
    using set_byte_ok [of "?i + 1" m0 b1] by auto
  from assms set_byte_shape [OF w0] set_byte_shape [OF w1]
  obtain m2 where w2: "set_byte m1 (?i + 2) b2 = Inr m2"
    using set_byte_ok [of "?i + 2" m1 b2] by auto
  from assms set_byte_shape [OF w0] set_byte_shape [OF w1] set_byte_shape [OF w2]
  obtain m3 where w3: "set_byte m2 (?i + 3) b3 = Inr m3"
    using set_byte_ok [of "?i + 3" m2 b3] by auto
  show ?thesis
    using assms(1-4) w0 w1 w2 w3 by (simp add: set_Vec4b_def v)
qed

lemma row_offset_inj:
  fixes s :: int
  assumes "x * s + a = x' * s + a'" "0 \<le> a" "a < s" "0 \<le> a'" "a' < s"
  shows "x = x' \<and> a = a'"
proof -
  have "x = x'"
  proof (rule ccontr)
    assume "x \<noteq> x'"
    then consider "x + 1 \<le> x'" | "x' + 1 \<le> x"
      by linarith
    then show False
    proof cases
      case 1
      then have "(x + 1) * s \<le> x' * s"
        using assms by (intro mult_right_mono) auto
      with assms show False
        by (simp add: algebra_simps)
    next
      case 2
      then have "(x' + 1) * s \<le> x * s"
        using assms by (intro mult_right_mono) auto
      with assms show False
        by (simp add: algebra_simps)
    qed
  qed
  with assms(1) show ?thesis by simp
qed

lemma pixel_offset_bounds:
  fixes c :: int
  assumes "0 \<le> y" "y < c" "0 \<le> k" "k < n" "0 < n"
  shows "0 \<le> y * n + k \<and> y * n + k < c * n"
proof -
  have "y * n + k < (y + 1) * n"
    using assms by (simp add: algebra_simps)
  also have "\<dots> \<le> c * n"
    using assms by (intro mult_right_mono) auto
  finally show ?thesis
    using assms by simp
qed

lemma mat_ok_channels: "mat_ok m \<Longrightarrow> 1 \<le> channels m"
  by (simp add: mat_ok_def channels_def pos_imp_zdiv_nonneg_iff)

lemma mat_ok_offset:
  assumes ok: "mat_ok m" and x: "0 \<le> x" "x < rows m" and y: "0 \<le> y" "y < cols m"
    and k: "0 \<le> k" "k < n" and n: "n \<le> channels m" "0 < n"
  shows "0 \<le> x * step m + y * n + k \<and> x * step m + y * n + k < int (length (data m))"
proof -
  have ch: "1 \<le> channels m"
    using ok by (rule mat_ok_channels)
  have px: "0 \<le> y * n + k \<and> y * n + k < cols m * n"
    using y k n by (intro pixel_offset_bounds) auto
  have "cols m * n \<le> cols m * channels m"
    using y n by (intro mult_left_mono) auto
  with px have px': "y * n + k < cols m * channels m"
    by linarith
  have st: "cols m * channels m \<le> step m"
    using ok by (simp add: mat_ok_def)
  with px px' have st0: "0 \<le> step m"
    by linarith
  have "x * step m \<le> (rows m - 1) * step m"
    using x st0 by (intro mult_right_mono) auto
  moreover have "(rows m - 1) * step m + cols m * channels m \<le> int (length (data m))"
    using ok x by (auto simp: mat_ok_def)
  moreover have "0 \<le> x * step m"
    using x st0 by simp
  ultimately show ?thesis
    using px px' by linarith
qed

lemma channels_CV_8UC3: "mtype m = CV_8UC3 \<Longrightarrow> channels m = 3"
  by (simp add: channels_def CV_8UC3_def)

lemma channels_CV_8UC4: "mtype m = CV_8UC4 \<Longrightarrow> channels m = 4"
  by (simp add: channels_def CV_8UC4_def)

lemma at_Vec3b_ok:
  assumes "mat_ok m" "3 \<le> channels m" "0 \<le> x" "x < rows m" "0 \<le> y" "y < cols m"
  shows "\<exists>px. at_Vec3b m x y = Inr px"
proof -
  have "0 \<le> x * step m + y * 3 + 0 \<and> x * step m + y * 3 + 0 < int (length (data m))"
    "0 \<le> x * step m + y * 3 + 1 \<and> x * step m + y * 3 + 1 < int (length (data m))"
    "0 \<le> x * step m + y * 3 + 2 \<and> x * step m + y * 3 + 2 < int (length (data m))"
    using assms by (intro mat_ok_offset; simp)+
  with assms show ?thesis
    by (simp add: at_Vec3b_def byte_at_def)
qed

lemma Vec4b_offsets:
  assumes "mat_ok m" "mtype m = CV_8UC4" "0 \<le> x" "x < rows m" "0 \<le> y" "y < cols m"
  shows "0 \<le> x * step m + y * 4 \<and> x * step m + y * 4 + 3 < int (length (data m))"
proof -
  have "0 \<le> x * step m + y * 4 + 0 \<and> x * step m + y * 4 + 0 < int (length (data m))"
    "0 \<le> x * step m + y * 4 + 3 \<and> x * step m + y * 4 + 3 < int (length (data m))"
    using assms by (intro mat_ok_offset; simp add: channels_CV_8UC4)+
  then show ?thesis by simp
qed

lemma at_Vec4b_ok:
  assumes "mat_ok m" "mtype m = CV_8UC4" "0 \<le> x" "x < rows m" "0 \<le> y" "y < cols m"
  shows "\<exists>v. at_Vec4b m x y = Inr v"
  using assms Vec4b_offsets [OF assms] by (simp add: at_Vec4b_def byte_at_def)

lemma Vec4b_offsets_distinct:
  fixes s :: int
  assumes ne: "x' \<noteq> x \<or> y' \<noteq> y" and y: "0 \<le> y" "y < c" "0 \<le> y'" "y' < c" and s: "c * 4 \<le> s"
    and k: "0 \<le> k" "k < 4" "0 \<le> k'" "k' < 4"
  shows "x' * s + y' * 4 + k \<noteq> x * s + y * 4 + k'"
proof
  assume "x' * s + y' * 4 + k = x * s + y * 4 + k'"
  then have "x' * s + (y' * 4 + k) = x * s + (y * 4 + k')"
    by simp
  then have "x' = x \<and> y' * 4 + k = y * 4 + k'"
    using y s k by (intro row_offset_inj) auto
  with ne k show False
    by auto
qed

lemma at_Vec4b_cong:
  assumes "rows m' = rows m" "cols m' = cols m" "step m' = step m"
    and "\<And>k. 0 \<le> k \<Longrightarrow> k < 4 \<Longrightarrow>
           byte_at m' (x * step m + y * 4 + k) = byte_at m (x * step m + y * 4 + k)"
  shows "at_Vec4b m' x y = at_Vec4b m x y"
proof -
  have "byte_at m' (x * step m + y * 4) = byte_at m (x * step m + y * 4)"
    "byte_at m' (x * step m + y * 4 + 1) = byte_at m (x * step m + y * 4 + 1)"
    "byte_at m' (x * step m + y * 4 + 2) = byte_at m (x * step m + y * 4 + 2)"
    "byte_at m' (x * step m + y * 4 + 3) = byte_at m (x * step m + y * 4 + 3)"
    using assms(4) [of 0] assms(4) [of 1] assms(4) [of 2] assms(4) [of 3] by simp_all
  with assms(1-3) show ?thesis
    by (simp add: at_Vec4b_def cong: sum.case_cong)
qed

lemma at_Vec4b_set_Vec4b:
  assumes wr: "set_Vec4b m x y v = Inr m'" and st: "cols m * 4 \<le> step m"
    and x': "0 \<le> x'" "x' < rows m" and y': "0 \<le> y'" "y' < cols m"
  shows "at_Vec4b m' x' y' = (if x' = x \<and> y' = y then Inr v else at_Vec4b m x' y')"
proof -
  obtain b0 b1 b2 b3 where v: "v = (b0, b1, b2, b3)"
    by (cases v) auto
  from wr have xy: "0 \<le> x" "x < rows m" "0 \<le> y" "y < cols m"
    by (auto simp: set_Vec4b_def split: if_splits)
  have sh: "rows m' = rows m" "cols m' = cols m" "step m' = step m"
    using set_Vec4b_shape [OF wr] by simp_all
  note bts = set_Vec4b_bytes [OF wr [unfolded v]]
  show ?thesis
  proof (cases "x' = x \<and> y' = y")
    case True
    have "at_Vec4b m' x y = Inr v"
      using xy by (simp add: at_Vec4b_def sh bts v)
    with True show ?thesis
      by simp
  next
    case False
    then have ne: "x' \<noteq> x \<or> y' \<noteq> y" by simp
    have d: "x' * step m + y' * 4 + k \<noteq> x * step m + y * 4 + k'"
      if "0 \<le> k" "k < 4" "0 \<le> k'" "k' < 4" for k k'
      using ne xy(3,4) y' st that by (rule Vec4b_offsets_distinct)
    have "byte_at m' (x' * step m + y' * 4 + k) = byte_at m (x' * step m + y' * 4 + k)"
      if "0 \<le> k" "k < 4" for k
      using d [OF that, of 0] d [OF that, of 1] d [OF that, of 2] d [OF that, of 3]
      by (simp add: bts)
    with sh have "at_Vec4b m' x' y' = at_Vec4b m x' y'"
      by (intro at_Vec4b_cong) auto
    with False show ?thesis
      by auto
  qed
qed

section \<open>The channel selector: properties\<close>

lemma getComponent_valid:
  "0 \<le> sel \<Longrightarrow> sel \<le> 2 \<Longrightarrow> snd (getComponent px sel cout) = cout"
  by (cases px) (auto simp: getComponent_def)

lemma getComponent_value:
  "fst (getComponent px sel cout) = fst (getComponent px sel [])"
  by (cases px) (auto simp: getComponent_def)

text \<open>
  Claim C6. For the selectors 0, 1 and 2 the channel selector returns the blue, the
  green and the red component of the pixel and prints nothing. For every other
  selector it returns 0 and prints one line that names the selector; it returns to
  its caller in every case.
\<close>

theorem getComponent_contract:
  "getComponent (b, g, r) 0 cout = (b, cout) \<and>
   getComponent (b, g, r) 1 cout = (g, cout) \<and>
   getComponent (b, g, r) 2 cout = (r, cout) \<and>
   (sel \<noteq> 0 \<and> sel \<noteq> 1 \<and> sel \<noteq> 2 \<longrightarrow>
      getComponent (b, g, r) sel cout =
        (0, cout @ [''!!! getComponent: '' @ show_int sel @ '' is not a valid component'']))"
  by (simp add: getComponent_def)

theorem getComponent_contract_witness:
  "getComponent (10, 20, 30) 0 [] = (10, []) \<and>
   getComponent (10, 20, 30) 1 [] = (20, []) \<and>
   getComponent (10, 20, 30) 2 [] = (30, []) \<and>
   getComponent (10, 20, 30) 3 [] = (0, [''!!! getComponent: 3 is not a valid component'']) \<and>
   getComponent (10, 20, 30) (- 1) [] = (0, [''!!! getComponent: -1 is not a valid component''])"
proof -
  have a: "show_int 3 = ''3''"
    by code_simp
  have b: "show_int (- 1) = ''-1''"
    by code_simp
  show ?thesis
    using getComponent_contract [of 10 20 30 "[]" 3]
      getComponent_contract [of 10 20 30 "[]" "- 1"]
    by (simp add: a b)
qed

section \<open>The displacement remapper: properties\<close>

lemma mat_ok_shape:
  assumes "rows m' = rows m \<and> cols m' = cols m \<and> mtype m' = mtype m \<and> step m' = step m \<and>
     length (data m') = length (data m)"
  shows "mat_ok m' = mat_ok m"
  using assms by (simp add: mat_ok_def channels_def)

lemma getComponent_split:
  "0 \<le> sel \<Longrightarrow> sel \<le> 2 \<Longrightarrow>
     getComponent px sel cout = (fst (getComponent px sel []), cout)"
  using getComponent_valid [of sel px cout] getComponent_value [of px sel cout]
  by (simp add: prod_eq_iff)

lemma remap_pixel_fixed:
  assumes sel: "0 \<le> cX" "cX \<le> 2" "0 \<le> cY" "cY \<le> 2"
    and rd: "at_Vec3b map_mat x y = Inr px"
    and dX: "displacement (fst (getComponent px cX [])) sX = Inr 0"
    and dY: "displacement (fst (getComponent px cY [])) sY = Inr 0"
    and x: "0 \<le> x" "x < rows out" "rows out \<le> INT_MAX"
    and y: "0 \<le> y" "y < cols out" "cols out \<le> INT_MAX"
  shows "remap_pixel map_mat target cX cY sX sY x y (out, cout) =
     (case at_Vec4b target x y of Inl e \<Rightarrow> Inl e
      | Inr v \<Rightarrow> (case set_Vec4b out x y v of Inl e \<Rightarrow> Inl e | Inr out' \<Rightarrow> Inr (out', cout)))"
proof -
  define cx where "cx = fst (getComponent px cX [])"
  define cy where "cy = fst (getComponent px cY [])"
  have gx: "getComponent px cX cout = (cx, cout)"
    unfolding cx_def using sel(1,2) by (rule getComponent_split)
  have gy: "getComponent px cY cout = (cy, cout)"
    unfolding cy_def using sel(3,4) by (rule getComponent_split)
  have ix: "int32 x = Inr x" and iy: "int32 y = Inr y"
    using x y by (simp_all add: int32_def INT_MIN_def)
  show ?thesis
    using x y dX dY
    by (simp add: remap_pixel_def rd gx gy ix iy flip: cx_def cy_def)
qed

lemma remap_cols_copy:
  assumes sel: "0 \<le> cX" "cX \<le> 2" "0 \<le> cY" "cY \<le> 2"
    and mp: "mat_ok map_mat" "3 \<le> channels map_mat"
      "rows map_mat = rows target" "cols map_mat = cols target"
    and tg: "mat_ok target" "mtype target = CV_8UC4"
    and zero: "\<forall>j px. 0 \<le> j \<and> j < cols target \<and> at_Vec3b map_mat x j = Inr px \<longrightarrow>
        displacement (fst (getComponent px cX [])) sX = Inr 0 \<and>
        displacement (fst (getComponent px cY [])) sY = Inr 0"
    and x: "0 \<le> x" "x < rows target"
    and y: "0 \<le> y" "y \<le> cols target"
    and out: "mat_ok out" "mtype out = CV_8UC4" "rows out = rows target" "cols out = cols target"
  shows "\<exists>out'. remap_cols map_mat target cX cY sX sY x y (out, cout) = Inr (out', cout) \<and>
      mat_ok out' \<and> mtype out' = CV_8UC4 \<and> rows out' = rows target \<and> cols out' = cols target \<and>
      (\<forall>i j. 0 \<le> i \<and> i < rows target \<and> 0 \<le> j \<and> j < cols target \<longrightarrow>
         at_Vec4b out' i j = (if i = x \<and> y \<le> j then at_Vec4b target i j else at_Vec4b out i j))"
  using y out
proof (induction "nat (cols target - y)" arbitrary: y out)
  case 0
  then have "\<not> y < cols out" by simp
  then have "remap_cols map_mat target cX cY sX sY x y (out, cout) = Inr (out, cout)"
    by (subst remap_cols.simps) simp
  with 0 show ?case
    by auto
next
  case (Suc n)
  then have ylt: "y < cols target" by linarith
  note o = Suc.prems(3-6)
  obtain px where rd: "at_Vec3b map_mat x y = Inr px"
    using at_Vec3b_ok [of map_mat x y] mp x Suc.prems(1) ylt by auto
  obtain v where tv: "at_Vec4b target x y = Inr v"
    using at_Vec4b_ok [of target x y] tg x Suc.prems(1) ylt by auto
  have off: "0 \<le> x * step out + y * 4 \<and> x * step out + y * 4 + 3 < int (length (data out))"
    using o x Suc.prems(1) ylt by (intro Vec4b_offsets) auto
  obtain out1 where wr: "set_Vec4b out x y v = Inr out1"
    using set_Vec4b_ok [of x out y v] o x Suc.prems(1) ylt off by auto
  have lim: "rows out \<le> INT_MAX" "cols out \<le> INT_MAX"
    using o(1) by (simp_all add: mat_ok_def)
  have z: "displacement (fst (getComponent px cX [])) sX = Inr 0"
    "displacement (fst (getComponent px cY [])) sY = Inr 0"
    using zero Suc.prems(1) ylt rd by blast+
  have px1: "remap_pixel map_mat target cX cY sX sY x y (out, cout) = Inr (out1, cout)"
    using remap_pixel_fixed [OF sel rd z, of out target cout] x Suc.prems(1) ylt o lim
    by (simp add: tv wr)
  note sh = set_Vec4b_shape [OF wr]
  have o1: "mat_ok out1" "mtype out1 = CV_8UC4" "rows out1 = rows target"
    "cols out1 = cols target"
    using o sh mat_ok_shape [OF sh] by simp_all
  have "n = nat (cols target - (y + 1))"
    using Suc.hyps(2) by linarith
  from Suc.hyps(1) [OF this _ _ o1] Suc.prems(1) ylt
  obtain out' where rest: "remap_cols map_mat target cX cY sX sY x (y + 1) (out1, cout)
        = Inr (out', cout)"
    and o': "mat_ok out'" "mtype out' = CV_8UC4" "rows out' = rows target"
      "cols out' = cols target"
    and eff: "\<And>i j. 0 \<le> i \<Longrightarrow> i < rows target \<Longrightarrow> 0 \<le> j \<Longrightarrow> j < cols target \<Longrightarrow>
         at_Vec4b out' i j =
           (if i = x \<and> y + 1 \<le> j then at_Vec4b target i j else at_Vec4b out1 i j)"
    by auto
  have st: "cols out * 4 \<le> step out"
    using o(1,2) by (simp add: mat_ok_def channels_CV_8UC4)
  have one: "at_Vec4b out1 i j = (if i = x \<and> j = y then Inr v else at_Vec4b out i j)"
    if "0 \<le> i" "i < rows target" "0 \<le> j" "j < cols target" for i j
    using at_Vec4b_set_Vec4b [OF wr st, of i j] that o by simp
  have "remap_cols map_mat target cX cY sX sY x y (out, cout) = Inr (out', cout)"
    using ylt o px1 rest by (subst remap_cols.simps) simp
  moreover have "at_Vec4b out' i j =
      (if i = x \<and> y \<le> j then at_Vec4b target i j else at_Vec4b out i j)"
    if "0 \<le> i" "i < rows target" "0 \<le> j" "j < cols target" for i j
    using eff [OF that] one [OF that] tv by auto
  ultimately show ?case
    using o' by auto
qed

lemma remap_rows_copy:
  assumes sel: "0 \<le> cX" "cX \<le> 2" "0 \<le> cY" "cY \<le> 2"
    and mp: "mat_ok map_mat" "3 \<le> channels map_mat"
      "rows map_mat = rows target" "cols map_mat = cols target"
    and tg: "mat_ok target" "mtype target = CV_8UC4"
    and zero: "\<forall>i j px. 0 \<le> i \<and> i < rows target \<and> 0 \<le> j \<and> j < cols target \<and>
        at_Vec3b map_mat i j = Inr px \<longrightarrow>
        displacement (fst (getComponent px cX [])) sX = Inr 0 \<and>
        displacement (fst (getComponent px cY [])) sY = Inr 0"
    and x: "0 \<le> x" "x \<le> rows target"
    and out: "mat_ok out" "mtype out = CV_8UC4" "rows out = rows target" "cols out = cols target"
  shows "\<exists>out'. remap_rows map_mat target cX cY sX sY x (out, cout) = Inr (out', cout) \<and>
      mat_ok out' \<and> mtype out' = CV_8UC4 \<and> rows out' = rows target \<and> cols out' = cols target \<and>
      (\<forall>i j. 0 \<le> i \<and> i < rows target \<and> 0 \<le> j \<and> j < cols target \<longrightarrow>
         at_Vec4b out' i j = (if x \<le> i then at_Vec4b target i j else at_Vec4b out i j))"
  using x out
proof (induction "nat (rows target - x)" arbitrary: x out)
  case 0
  then have "\<not> x < rows out" by simp
  then have "remap_rows map_mat target cX cY sX sY x (out, cout) = Inr (out, cout)"
    by (subst remap_rows.simps) simp
  with 0 show ?case
    by auto
next
  case (Suc n)
  then have xlt: "x < rows target" by linarith
  note o = Suc.prems(3-6)
  have c0: "0 \<le> cols target"
    using tg(1) by (simp add: mat_ok_def)
  have zx: "\<forall>j px. 0 \<le> j \<and> j < cols target \<and> at_Vec3b map_mat x j = Inr px \<longrightarrow>
        displacement (fst (getComponent px cX [])) sX = Inr 0 \<and>
        displacement (fst (getComponent px cY [])) sY = Inr 0"
    using zero Suc.prems(1) xlt by blast
  from remap_cols_copy [where cout = cout,
      OF sel mp tg zx Suc.prems(1) xlt order_refl c0 o]
  obtain out1 where row: "remap_cols map_mat target cX cY sX sY x 0 (out, cout) = Inr (out1, cout)"
    and o1: "mat_ok out1" "mtype out1 = CV_8UC4" "rows out1 = rows target"
      "cols out1 = cols target"
    and one: "\<And>i j. 0 \<le> i \<Longrightarrow> i < rows target \<Longrightarrow> 0 \<le> j \<Longrightarrow> j < cols target \<Longrightarrow>
         at_Vec4b out1 i j = (if i = x \<and> 0 \<le> j then at_Vec4b target i j else at_Vec4b out i j)"
    by auto
  have "n = nat (rows target - (x + 1))"
    using Suc.hyps(2) by linarith
  from Suc.hyps(1) [OF this _ _ o1] Suc.prems(1) xlt
  obtain out' where rest: "remap_rows map_mat target cX cY sX sY (x + 1) (out1, cout)
        = Inr (out', cout)"
    and o': "mat_ok out'" "mtype out' = CV_8UC4" "rows out' = rows target"
      "cols out' = cols target"
    and eff: "\<And>i j. 0 \<le> i \<Longrightarrow> i < rows target \<Longrightarrow> 0 \<le> j \<Longrightarrow> j < cols target \<Longrightarrow>
         at_Vec4b out' i j = (if x + 1 \<le> i then at_Vec4b target i j else at_Vec4b out1 i j)"
    by auto
  have "remap_rows map_mat target cX cY sX sY x (out, cout) = Inr (out', cout)"
    using xlt o row rest by (subst remap_rows.simps) simp
  moreover have "at_Vec4b out' i j = (if x \<le> i then at_Vec4b target i j else at_Vec4b out i j)"
    if "0 \<le> i" "i < rows target" "0 \<le> j" "j < cols target" for i j
    using eff [OF that] one [OF that] that by auto
  ultimately show ?case
    using o' by auto
qed

lemma mat_ok_create:
  assumes "0 \<le> r" "r \<le> INT_MAX" "0 \<le> c" "c \<le> INT_MAX"
  shows "mat_ok (create r c CV_8UC4)"
proof -
  have "(r - 1) * (c * 4) + c * 4 = r * (c * 4)"
    by (simp add: algebra_simps)
  moreover have "0 \<le> r * (c * 4)"
    using assms by simp
  ultimately show ?thesis
    using assms by (simp add: mat_ok_def create_def channels_def CV_8UC4_def)
qed

lemma displacementMapFilter_fixed:
  assumes sel: "0 \<le> cX" "cX \<le> 2" "0 \<le> cY" "cY \<le> 2"
    and mp: "mat_ok map_mat" "3 \<le> channels map_mat"
      "rows map_mat = rows target" "cols map_mat = cols target"
    and tg: "mat_ok target" "mtype target = CV_8UC4"
    and zero: "\<forall>i j px. 0 \<le> i \<and> i < rows target \<and> 0 \<le> j \<and> j < cols target \<and>
        at_Vec3b map_mat i j = Inr px \<longrightarrow>
        displacement (fst (getComponent px cX [])) sX = Inr 0 \<and>
        displacement (fst (getComponent px cY [])) sY = Inr 0"
  shows "\<exists>out. displacementMapFilter map_mat target cX cY sX sY output cout = Inr (out, cout) \<and>
      rows out = rows target \<and> cols out = cols target \<and> mtype out = mtype target \<and>
      (\<forall>x y. 0 \<le> x \<and> x < rows target \<and> 0 \<le> y \<and> y < cols target \<longrightarrow>
         (\<exists>v. at_Vec4b target x y = Inr v \<and> at_Vec4b out x y = Inr v))"
proof -
  let ?out0 = "create (rows target) (cols target) CV_8UC4"
  have dims: "0 \<le> rows target" "rows target \<le> INT_MAX" "0 \<le> cols target"
    "cols target \<le> INT_MAX"
    using tg(1) by (simp_all add: mat_ok_def)
  have o0: "mat_ok ?out0" "mtype ?out0 = CV_8UC4" "rows ?out0 = rows target"
    "cols ?out0 = cols target"
    using mat_ok_create [OF dims] by (simp_all add: create_def)
  from remap_rows_copy [where cout = cout, OF sel mp tg zero order_refl dims(1) o0]
  obtain out where run: "remap_rows map_mat target cX cY sX sY 0 (?out0, cout) = Inr (out, cout)"
    and o: "mtype out = CV_8UC4" "rows out = rows target" "cols out = cols target"
    and eff: "\<And>i j. 0 \<le> i \<Longrightarrow> i < rows target \<Longrightarrow> 0 \<le> j \<Longrightarrow> j < cols target \<Longrightarrow>
         at_Vec4b out i j = at_Vec4b target i j"
    by auto
  have "displacementMapFilter map_mat target cX cY sX sY output cout = Inr (out, cout)"
    using sel mp(3,4) tg(2) run by (simp add: displacementMapFilter_def)
  moreover have "\<exists>v. at_Vec4b target x y = Inr v \<and> at_Vec4b out x y = Inr v"
    if "0 \<le> x" "x < rows target" "0 \<le> y" "y < cols target" for x y
    using at_Vec4b_ok [OF tg that] eff [OF that] by auto
  ultimately show ?thesis
    using o tg(2) by auto
qed

lemma displacement_zero_scale: "displacement c 0 = Inr 0"
  by (simp add: displacement_def int32_def INT_MIN_def INT_MAX_def)

lemma displacement_small:
  assumes "\<bar>uint c - 128\<bar> * \<bar>s\<bar> < 256"
  shows "displacement c s = Inr 0"
proof -
  have a: "\<bar>(uint c - 128) * s\<bar> < 256"
    using assms by (simp add: abs_mult)
  then have "- 256 < (uint c - 128) * s \<and> (uint c - 128) * s < 256"
    by linarith
  then have "int32 ((uint c - 128) * s) = Inr ((uint c - 128) * s)"
    by (simp add: int32_def INT_MIN_def INT_MAX_def)
  moreover have "((uint c - 128) * s) sdiv 256 = 0"
    using a by (simp add: signed_divide_int_def)
  ultimately show ?thesis
    by (simp add: displacement_def)
qed

text \<open>
  Claim C5. A call with a selector outside 0, 1, 2, with a map and a target of
  different width or height, or with a target whose type is not \<open>CV_8UC4\<close>, prints
  one line and returns: the caller's output matrix is what it was.
\<close>

theorem displacementMapFilter_rejects:
  assumes "componentX < 0 \<or> componentX > 2 \<or> componentY < 0 \<or> componentY > 2 \<or>
           cols target \<noteq> cols map_mat \<or> rows target \<noteq> rows map_mat \<or>
           mtype target \<noteq> CV_8UC4"
  shows "\<exists>line.
           displacementMapFilter map_mat target componentX componentY scaleX scaleY output cout
             = Inr (output, cout @ [line])"
  using assms by (auto simp: displacementMapFilter_def)

theorem displacementMapFilter_rejects_witness:
  "(\<exists>line. displacementMapFilter map_2x2 target_2x2 3 0 20 20 target_1x1 [] =
             Inr (target_1x1, [] @ [line])) \<and>
   (\<exists>line. displacementMapFilter map_2x2 target_1x1 2 2 20 20 target_2x2 [] =
             Inr (target_2x2, [] @ [line])) \<and>
   (\<exists>line. displacementMapFilter map_2x2 map_2x2 2 2 20 20 empty_Mat [] =
             Inr (empty_Mat, [] @ [line]))"
proof -
  have a: "cols target_1x1 \<noteq> cols map_2x2"
    by (simp add: target_1x1_def map_2x2_def)
  have b: "mtype map_2x2 \<noteq> CV_8UC4"
    by (simp add: map_2x2_def CV_8UC4_def)
  show ?thesis
    using displacementMapFilter_rejects [of 3 0 target_2x2 map_2x2 20 20 target_1x1 "[]"]
      displacementMapFilter_rejects [of 2 2 target_1x1 map_2x2 20 20 target_2x2 "[]"]
      displacementMapFilter_rejects [of 2 2 map_2x2 map_2x2 20 20 empty_Mat "[]"]
      a b
    by simp
qed

lemma at_Vec3b_red:
  assumes "at_Vec3b m x y = Inr (b, g, r)" "channels m = 3"
  shows "channel_at m x y 2 = Inr r"
  using assms by (auto simp: at_Vec3b_def channel_at_def split: if_splits sum.splits)

text \<open>
  Claim C2. For a map of type \<open>CV_8UC3\<close> and a target of type \<open>CV_8UC4\<close> of the
  same size, valid selectors and both scales 0, the remapper prints nothing and
  returns an output of the size and type of the target whose pixel at every row
  \<open>x\<close> and column \<open>y\<close> is the pixel of the target there. The bytes of the map play
  no part.
\<close>

theorem zero_scale_identity:
  assumes "mat_ok map_mat" "mtype map_mat = CV_8UC3"
    and "mat_ok target" "mtype target = CV_8UC4"
    and "rows map_mat = rows target" "cols map_mat = cols target"
    and "0 \<le> componentX" "componentX \<le> 2" "0 \<le> componentY" "componentY \<le> 2"
  shows "\<exists>out. displacementMapFilter map_mat target componentX componentY 0 0 output cout
               = Inr (out, cout) \<and>
           rows out = rows target \<and> cols out = cols target \<and> mtype out = mtype target \<and>
           (\<forall>x y. 0 \<le> x \<and> x < rows target \<and> 0 \<le> y \<and> y < cols target \<longrightarrow>
              (\<exists>v. at_Vec4b target x y = Inr v \<and> at_Vec4b out x y = Inr v))"
proof -
  have "3 \<le> channels map_mat"
    using assms(2) by (simp add: channels_CV_8UC3)
  then show ?thesis
    using assms by (intro displacementMapFilter_fixed) (simp_all add: displacement_zero_scale)
qed

theorem zero_scale_identity_witness:
  "mat_ok map_2x2 \<and> mtype map_2x2 = CV_8UC3 \<and> mat_ok target_2x2 \<and> mtype target_2x2 = CV_8UC4 \<and>
   rows map_2x2 = rows target_2x2 \<and> cols map_2x2 = cols target_2x2 \<and>
   (\<exists>out. displacementMapFilter map_2x2 target_2x2 0 1 0 0 empty_Mat [] = Inr (out, []) \<and>
      rows out = 2 \<and> cols out = 2 \<and> mtype out = CV_8UC4 \<and>
      at_Vec4b out 0 0 = Inr (1, 2, 3, 255) \<and> at_Vec4b out 0 1 = Inr (4, 5, 6, 128) \<and>
      at_Vec4b out 1 0 = Inr (7, 8, 9, 0) \<and> at_Vec4b out 1 1 = Inr (10, 11, 12, 64))"
proof -
  have h: "mat_ok map_2x2" "mtype map_2x2 = CV_8UC3" "mat_ok target_2x2"
    "mtype target_2x2 = CV_8UC4" "rows map_2x2 = rows target_2x2"
    "cols map_2x2 = cols target_2x2"
    by code_simp+
  have t: "at_Vec4b target_2x2 0 0 = Inr (1, 2, 3, 255)"
    "at_Vec4b target_2x2 0 1 = Inr (4, 5, 6, 128)"
    "at_Vec4b target_2x2 1 0 = Inr (7, 8, 9, 0)"
    "at_Vec4b target_2x2 1 1 = Inr (10, 11, 12, 64)"
    by code_simp+
  have d: "rows target_2x2 = 2" "cols target_2x2 = 2"
    by (simp_all add: target_2x2_def)
  from zero_scale_identity [OF h, of 0 1 empty_Mat "[]"]
  obtain out where "displacementMapFilter map_2x2 target_2x2 0 1 0 0 empty_Mat [] = Inr (out, [])"
    "rows out = 2" "cols out = 2" "mtype out = CV_8UC4"
    "\<forall>x y. 0 \<le> x \<and> x < 2 \<and> 0 \<le> y \<and> y < 2 \<longrightarrow>
       (\<exists>v. at_Vec4b target_2x2 x y = Inr v \<and> at_Vec4b out x y = Inr v)"
    using h(4) d by auto
  moreover from this(5) have "at_Vec4b out x y = at_Vec4b target_2x2 x y"
    if "0 \<le> x \<and> x < 2 \<and> 0 \<le> y \<and> y < 2" for x y
    using that by fastforce
  from this [of 0 0] this [of 0 1] this [of 1 0] this [of 1 1]
  have "at_Vec4b out 0 0 = at_Vec4b target_2x2 0 0"
    "at_Vec4b out 0 1 = at_Vec4b target_2x2 0 1" "at_Vec4b out 1 0 = at_Vec4b target_2x2 1 0"
    "at_Vec4b out 1 1 = at_Vec4b target_2x2 1 1"
    by simp_all
  ultimately show ?thesis
    using h t by auto
qed

lemma displacement_128: "displacement 128 s = Inr 0"
  by (rule displacement_small) simp

text \<open>
  Claim C8. For a map of four rows and four columns whose red component is 128 at
  every pixel and any target of type \<open>CV_8UC4\<close> of that size, the remapper called
  with the selectors 2 and 2 and the scales 20 and 20 returns the target, pixel for
  pixel.
\<close>

theorem neutral_map_4x4:
  assumes "mat_ok map_mat" "mtype map_mat = CV_8UC3" "rows map_mat = 4" "cols map_mat = 4"
    and "\<forall>x y. 0 \<le> x \<and> x < 4 \<and> 0 \<le> y \<and> y < 4 \<longrightarrow> channel_at map_mat x y 2 = Inr 128"
    and "mat_ok target" "mtype target = CV_8UC4" "rows target = 4" "cols target = 4"
  shows "\<exists>out. displacementMapFilter map_mat target 2 2 20 20 output cout = Inr (out, cout) \<and>
           rows out = 4 \<and> cols out = 4 \<and> mtype out = CV_8UC4 \<and>
           (\<forall>x y. 0 \<le> x \<and> x < 4 \<and> 0 \<le> y \<and> y < 4 \<longrightarrow>
              (\<exists>v. at_Vec4b target x y = Inr v \<and> at_Vec4b out x y = Inr v))"
proof -
  have ch: "channels map_mat = 3"
    using assms(2) by (rule channels_CV_8UC3)
  have z: "\<forall>i j px. 0 \<le> i \<and> i < rows target \<and> 0 \<le> j \<and> j < cols target \<and>
        at_Vec3b map_mat i j = Inr px \<longrightarrow>
        displacement (fst (getComponent px 2 [])) 20 = Inr 0 \<and>
        displacement (fst (getComponent px 2 [])) 20 = Inr 0"
  proof (intro allI impI)
    fix i j px
    assume a: "0 \<le> i \<and> i < rows target \<and> 0 \<le> j \<and> j < cols target \<and>
        at_Vec3b map_mat i j = Inr px"
    obtain b g r where px: "px = (b, g, r)"
      by (cases px) auto
    from a px ch have "channel_at map_mat i j 2 = Inr r"
      by (intro at_Vec3b_red) auto
    with a assms(5,8,9) have "r = 128"
      by auto
    then have "fst (getComponent px 2 []) = 128"
      by (simp add: px getComponent_def)
    then show "displacement (fst (getComponent px 2 [])) 20 = Inr 0 \<and>
        displacement (fst (getComponent px 2 [])) 20 = Inr 0"
      by (simp add: displacement_128)
  qed
  have "\<exists>out. displacementMapFilter map_mat target 2 2 20 20 output cout = Inr (out, cout) \<and>
      rows out = rows target \<and> cols out = cols target \<and> mtype out = mtype target \<and>
      (\<forall>x y. 0 \<le> x \<and> x < rows target \<and> 0 \<le> y \<and> y < cols target \<longrightarrow>
         (\<exists>v. at_Vec4b target x y = Inr v \<and> at_Vec4b out x y = Inr v))"
    using assms ch z by (intro displacementMapFilter_fixed) simp_all
  then show ?thesis
    using assms(7-9) by simp
qed

theorem neutral_map_4x4_witness:
  "mat_ok map_4x4 \<and> mtype map_4x4 = CV_8UC3 \<and> rows map_4x4 = 4 \<and> cols map_4x4 = 4 \<and>
   channel_at map_4x4 0 0 2 = Inr 128 \<and> channel_at map_4x4 3 3 2 = Inr 128 \<and>
   mat_ok target_4x4 \<and> mtype target_4x4 = CV_8UC4 \<and> rows target_4x4 = 4 \<and>
   cols target_4x4 = 4 \<and>
   (\<exists>out. displacementMapFilter map_4x4 target_4x4 2 2 20 20 empty_Mat [] = Inr (out, []) \<and>
      rows out = 4 \<and> cols out = 4 \<and> mtype out = CV_8UC4 \<and>
      at_Vec4b out 0 0 = Inr (0, 1, 2, 3) \<and> at_Vec4b out 1 2 = Inr (24, 25, 26, 27) \<and>
      at_Vec4b out 3 3 = Inr (60, 61, 62, 63))"
proof -
  have m: "mat_ok map_4x4" "mtype map_4x4 = CV_8UC3" "rows map_4x4 = 4" "cols map_4x4 = 4"
    by code_simp+
  have t: "mat_ok target_4x4" "mtype target_4x4 = CV_8UC4" "rows target_4x4 = 4"
    "cols target_4x4 = 4"
    by code_simp+
  have "\<forall>x \<in> set [0..3]. \<forall>y \<in> set [0..3]. channel_at map_4x4 x y 2 = Inr 128"
    by code_simp
  then have red: "\<forall>x y. 0 \<le> x \<and> x < 4 \<and> 0 \<le> y \<and> y < 4 \<longrightarrow>
      channel_at map_4x4 x y 2 = Inr 128"
    by auto
  have v: "at_Vec4b target_4x4 0 0 = Inr (0, 1, 2, 3)"
    "at_Vec4b target_4x4 1 2 = Inr (24, 25, 26, 27)"
    "at_Vec4b target_4x4 3 3 = Inr (60, 61, 62, 63)"
    by code_simp+
  from neutral_map_4x4 [OF m red t, of empty_Mat "[]"]
  obtain out where run: "displacementMapFilter map_4x4 target_4x4 2 2 20 20 empty_Mat []
        = Inr (out, [])"
    and sh: "rows out = 4" "cols out = 4" "mtype out = CV_8UC4"
    and eq: "\<forall>x y. 0 \<le> x \<and> x < 4 \<and> 0 \<le> y \<and> y < 4 \<longrightarrow>
       (\<exists>v. at_Vec4b target_4x4 x y = Inr v \<and> at_Vec4b out x y = Inr v)"
    by auto
  have "at_Vec4b out x y = at_Vec4b target_4x4 x y"
    if "0 \<le> x \<and> x < 4 \<and> 0 \<le> y \<and> y < 4" for x y
    using eq that by fastforce
  from this [of 0 0] this [of 1 2] this [of 3 3]
  have "at_Vec4b out 0 0 = Inr (0, 1, 2, 3)" "at_Vec4b out 1 2 = Inr (24, 25, 26, 27)"
    "at_Vec4b out 3 3 = Inr (60, 61, 62, 63)"
    by (simp_all add: v)
  with run sh m t red show ?thesis
    by auto
qed

text \<open>
  Claim C9. The displacement \<open>(c - 128) * s / 256\<close> of a component \<open>c\<close> and a scale
  \<open>s\<close> with \<open>\<bar>c - 128\<bar> * \<bar>s\<bar> < 256\<close> is computed without overflow and is 0,
  because the division truncates towards zero; with the scale 20 this holds for
  every component from 116 to 140.
\<close>

theorem dead_zone:
  "(\<bar>uint c - 128\<bar> * \<bar>s\<bar> < 256 \<longrightarrow> displacement c s = Inr 0) \<and>
   (116 \<le> uint c \<and> uint c \<le> 140 \<longrightarrow> displacement c 20 = Inr 0)"
proof (intro conjI impI)
  assume "\<bar>uint c - 128\<bar> * \<bar>s\<bar> < 256"
  then show "displacement c s = Inr 0"
    by (rule displacement_small)
next
  assume "116 \<le> uint c \<and> uint c \<le> 140"
  then have "\<bar>uint c - 128\<bar> \<le> 12"
    by linarith
  then have "\<bar>uint c - 128\<bar> * \<bar>20\<bar> < 256"
    by simp
  then show "displacement c 20 = Inr 0"
    by (rule displacement_small)
qed

theorem dead_zone_witness:
  "displacement 140 20 = Inr 0 \<and> displacement 116 20 = Inr 0 \<and> displacement 1 (- 2) = Inr 0 \<and>
   displacement 255 2 = Inr 0"
  using dead_zone [of 140 20] dead_zone [of 116 20] dead_zone [of 1 "- 2"] dead_zone [of 255 2]
  by simp

text \<open>The next components on either side are displaced by one pixel.\<close>

lemma dead_zone_ends:
  "displacement 141 20 = Inr 1" "displacement 115 20 = Inr (- 1)"
  by (simp_all add: displacement_def int32_def INT_MIN_def INT_MAX_def signed_divide_int_def)







lemma at_Vec4b_outside:
  "i0 = rows m \<or> i1 = cols m \<Longrightarrow> at_Vec4b m i0 i1 = Inl OutOfRange"
  by (auto simp: at_Vec4b_def)

lemma remap_pixel_outside:
  assumes sel: "0 \<le> cX" "cX \<le> 2" "0 \<le> cY" "cY \<le> 2"
    and rd: "at_Vec3b map_mat x y = Inr px"
    and dX: "displacement (fst (getComponent px cX [])) sX = Inr ox"
    and dY: "displacement (fst (getComponent px cY [])) sY = Inr oy"
    and far: "rows target \<le> x + ox \<or> cols target \<le> y + oy"
    and sh: "rows out = rows target" "cols out = cols target"
    and pos: "0 \<le> rows target" "0 \<le> cols target"
  shows "\<exists>f. remap_pixel map_mat target cX cY sX sY x y (out, cout) = Inl f"
proof -
  define cx where "cx = fst (getComponent px cX [])"
  define cy where "cy = fst (getComponent px cY [])"
  have gx: "getComponent px cX cout = (cx, cout)"
    unfolding cx_def using sel(1,2) by (rule getComponent_split)
  have gy: "getComponent px cY cout = (cy, cout)"
    unfolding cy_def using sel(3,4) by (rule getComponent_split)
  have dx: "displacement cx sX = Inr ox" and dy: "displacement cy sY = Inr oy"
    using dX dY by (simp_all add: cx_def cy_def)
  define dxc where "dxc = (let dx1 = (if x + ox < 0 then 0 else x + ox)
                           in if dx1 \<ge> rows out then rows out else dx1)"
  define dyc where "dyc = (let dy1 = (if y + oy < 0 then 0 else y + oy)
                           in if dy1 \<ge> cols out then cols out else dy1)"
  have "dxc = rows target \<or> dyc = cols target"
    using far sh pos by (auto simp: dxc_def dyc_def Let_def)
  then have rdt: "at_Vec4b target dxc dyc = Inl OutOfRange"
    by (rule at_Vec4b_outside)
  show ?thesis
  proof (cases "int32 (x + ox)")
    case (Inl f)
    then show ?thesis
      by (simp add: remap_pixel_def rd gx dx)
  next
    case ix: (Inr dx0)
    then have dx0: "dx0 = x + ox"
      by (simp add: int32_def split: if_splits)
    show ?thesis
    proof (cases "int32 (y + oy)")
      case (Inl f)
      then show ?thesis
        by (simp add: remap_pixel_def rd gx gy dx dy ix Let_def)
    next
      case iy: (Inr dy0)
      then have dy0: "dy0 = y + oy"
        by (simp add: int32_def split: if_splits)
      have "remap_pixel map_mat target cX cY sX sY x y (out, cout) =
          (case at_Vec4b target dxc dyc of Inl e \<Rightarrow> Inl e
           | Inr v \<Rightarrow> (case set_Vec4b out x y v of Inl e \<Rightarrow> Inl e
                      | Inr out' \<Rightarrow> Inr (out', cout)))"
        unfolding remap_pixel_def dxc_def dyc_def
        by (simp add: rd gx gy dx dy ix iy dx0 dy0 Let_def)
      then have "remap_pixel map_mat target cX cY sX sY x y (out, cout) = Inl OutOfRange"
        by (simp add: rdt)
      then show ?thesis
        by blast
    qed
  qed
qed

lemma remap_cols_outside:
  assumes px: "\<And>out cout. rows out = rows target \<Longrightarrow> cols out = cols target \<Longrightarrow>
        \<exists>f. remap_pixel map_mat target cX cY sX sY x y (out, cout) = Inl f"
    and y: "y0 \<le> y" "y < cols target"
    and sh: "rows (fst s) = rows target" "cols (fst s) = cols target"
  shows "\<exists>f. remap_cols map_mat target cX cY sX sY x y0 s = Inl f"
  using y(1) sh
proof (induction "nat (y - y0)" arbitrary: y0 s)
  case 0
  then have "y0 = y" by simp
  moreover obtain f where "remap_pixel map_mat target cX cY sX sY x y s = Inl f"
    using px [of "fst s" "snd s"] 0 by auto
  ultimately show ?case
    using y(2) 0 by (subst remap_cols.simps) simp
next
  case (Suc n)
  then have lt: "y0 < cols (fst s)"
    using y(2) by linarith
  show ?case
  proof (cases "remap_pixel map_mat target cX cY sX sY x y0 s")
    case (Inl f)
    with lt show ?thesis
      by (subst remap_cols.simps) simp
  next
    case (Inr s1)
    then have "rows (fst s1) = rows (fst s)" "cols (fst s1) = cols (fst s)"
      using remap_pixel_shape [of map_mat target cX cY sX sY x y0 "fst s" "snd s" "fst s1" "snd s1"]
      by simp_all
    with Suc.prems have sh1: "rows (fst s1) = rows target" "cols (fst s1) = cols target"
      by simp_all
    have "n = nat (y - (y0 + 1))" "y0 + 1 \<le> y"
      using Suc.hyps(2) by linarith+
    from Suc.hyps(1) [OF this sh1]
    obtain f where "remap_cols map_mat target cX cY sX sY x (y0 + 1) s1 = Inl f"
      by blast
    with lt Inr show ?thesis
      by (subst remap_cols.simps) simp
  qed
qed

lemma remap_rows_outside:
  assumes px: "\<And>out cout. rows out = rows target \<Longrightarrow> cols out = cols target \<Longrightarrow>
        \<exists>f. remap_pixel map_mat target cX cY sX sY x y (out, cout) = Inl f"
    and x: "x0 \<le> x" "x < rows target" and y: "0 \<le> y" "y < cols target"
    and sh: "rows (fst s) = rows target" "cols (fst s) = cols target"
  shows "\<exists>f. remap_rows map_mat target cX cY sX sY x0 s = Inl f"
  using x(1) sh
proof (induction "nat (x - x0)" arbitrary: x0 s)
  case 0
  then have "x0 = x" by simp
  moreover obtain f where "remap_cols map_mat target cX cY sX sY x 0 s = Inl f"
    using remap_cols_outside [OF px y] 0 by blast
  ultimately show ?case
    using x(2) 0 by (subst remap_rows.simps) simp
next
  case (Suc n)
  then have lt: "x0 < rows (fst s)"
    using x(2) by linarith
  show ?case
  proof (cases "remap_cols map_mat target cX cY sX sY x0 0 s")
    case (Inl f)
    with lt show ?thesis
      by (subst remap_rows.simps) simp
  next
    case (Inr s1)
    then have "rows (fst s1) = rows (fst s)" "cols (fst s1) = cols (fst s)"
      using remap_cols_shape by blast+
    with Suc.prems have sh1: "rows (fst s1) = rows target" "cols (fst s1) = cols target"
      by simp_all
    have "n = nat (x - (x0 + 1))" "x0 + 1 \<le> x"
      using Suc.hyps(2) by linarith+
    from Suc.hyps(1) [OF this sh1]
    obtain f where "remap_rows map_mat target cX cY sX sY (x0 + 1) s1 = Inl f"
      by blast
    with lt Inr show ?thesis
      by (subst remap_rows.simps) simp
  qed
qed

text \<open>
  Claim C1 fails on the code. The upper clamp sets a source row that is not less
  than \<open>output.rows\<close> to \<open>output.rows\<close>, and a source column that is not less than
  \<open>output.cols\<close> to \<open>output.cols\<close>: one past the last valid index. So whenever the
  displaced row or column of some pixel of a call that passes the two guards is
  at or beyond the dimension, the call does not return an output: it reads the
  target outside its index range, or has left defined behaviour before.
\<close>

theorem clamp_to_dimension_reads_outside:
  assumes "0 \<le> componentX" "componentX \<le> 2" "0 \<le> componentY" "componentY \<le> 2"
    and "cols target = cols map_mat" "rows target = rows map_mat" "mtype target = CV_8UC4"
    and "0 \<le> x" "x < rows target" "0 \<le> y" "y < cols target"
    and "at_Vec3b map_mat x y = Inr px"
    and "displacement (fst (getComponent px componentX [])) scaleX = Inr ox"
    and "displacement (fst (getComponent px componentY [])) scaleY = Inr oy"
    and "rows target \<le> x + ox \<or> cols target \<le> y + oy"
  shows "\<exists>f. displacementMapFilter map_mat target componentX componentY scaleX scaleY output cout
           = Inl f"
proof -
  have px: "\<exists>f. remap_pixel map_mat target componentX componentY scaleX scaleY x y (out, c) = Inl f"
    if "rows out = rows target" "cols out = cols target" for out c
    using assms(1-4,12-15) that by (rule remap_pixel_outside) (use assms(8-11) in auto)
  let ?s = "(create (rows target) (cols target) (mtype target), cout)"
  have "\<exists>f. remap_rows map_mat target componentX componentY scaleX scaleY 0 ?s = Inl f"
    using px assms(8-11) by (rule remap_rows_outside) (simp_all add: create_def)
  with assms(1-7) show ?thesis
    by (simp add: displacementMapFilter_def)
qed

theorem clamp_to_dimension_reads_outside_witness:
  "cols target_1x1 = cols map_1x1 \<and> rows target_1x1 = rows map_1x1 \<and> mtype target_1x1 = CV_8UC4 \<and>
   at_Vec3b map_1x1 0 0 = Inr (0, 0, 255) \<and>
   displacement (fst (getComponent (0, 0, 255) 2 [])) 20 = Inr 9 \<and>
   rows target_1x1 \<le> 0 + 9 \<and>
   (\<exists>f. displacementMapFilter map_1x1 target_1x1 2 2 20 20 empty_Mat [] = Inl f)"
proof -
  have h: "cols target_1x1 = cols map_1x1" "rows target_1x1 = rows map_1x1"
    "mtype target_1x1 = CV_8UC4"
    by code_simp+
  have r: "(0::int) < rows target_1x1" "(0::int) < cols target_1x1"
    by code_simp+
  have rd: "at_Vec3b map_1x1 0 0 = Inr (0, 0, 255)"
    by code_simp
  have d: "displacement (fst (getComponent (0, 0, 255) 2 [])) 20 = Inr 9"
    by code_simp
  have far: "rows target_1x1 \<le> 0 + 9 \<or> cols target_1x1 \<le> 0 + 9"
    by code_simp
  have far': "rows target_1x1 \<le> 0 + 9"
    by code_simp
  from clamp_to_dimension_reads_outside [OF _ _ _ _ h order_refl r(1) order_refl r(2) rd d d far,
      of empty_Mat "[]"]
  have "\<exists>f. displacementMapFilter map_1x1 target_1x1 2 2 20 20 empty_Mat [] = Inl f"
    by simp
  with h rd d far' show ?thesis
    by simp
qed

text \<open>
  The call of the driver on a map of one pixel with red component 255: at \<open>x = 0\<close>
  the source row is \<open>0 + (255 - 128) * 20 / 256 = 9\<close>, which is set to
  \<open>output.rows = 1\<close>, and the target is read at row 1 and column 1.
\<close>

lemma displacementMapFilter_reads_outside:
  "displacementMapFilter map_1x1 target_1x1 2 2 20 20 empty_Mat [] = Inl OutOfRange"
  by code_simp

section \<open>The alpha compositor: properties\<close>

subsection \<open>Double precision on the values 0, 1 and the bytes\<close>

text \<open>
  The integers below \<open>2\<^sup>5\<^sup>3\<close> are \<^verbatim>\<open>double\<close>s: rounding leaves them as they
  are. So a fourth channel of 255 is the opacity 1, one of 0 is the opacity 0, and
  the blend of a background byte and a foreground byte with opacity 1 is the
  foreground byte, with no rounding error at any step: the result is the same when
  a compiler fuses the multiplication and the addition.
\<close>

lemma round_even_of_int: "round_even (of_int k) = k"
  by (simp add: round_even_def)

lemma bitlen_one: "bitlen 1 = 1"
  using bitlen_pow2 [of 1 0] by (simp add: bitlen_def floorlog_def)

lemma binade_of_int:
  assumes "0 < n"
  shows "binade (of_int n) = bitlen n - 1"
proof -
  have q: "quotient_of \<bar>rat_of_int n\<bar> = (n, 1)"
    using assms by simp
  have b: "1 \<le> bitlen n"
    using assms bitlen_eq_zero_iff [of n] bitlen_nonneg [of n] by linarith
  have "(2::int) ^ nat (bitlen n - 1) \<le> n"
    using bitlen_bounds [OF assms] by simp
  then have "rat_of_int (2 ^ nat (bitlen n - 1)) \<le> rat_of_int n"
    by (simp only: of_int_le_iff)
  then have "(2::rat) powi (bitlen n - 1) \<le> \<bar>rat_of_int n\<bar>"
    using assms b by (simp add: power_int_def)
  then show ?thesis
    by (simp add: binade_def q bitlen_one)
qed

lemma to_double_of_int:
  assumes "0 \<le> n" "n < 2 ^ 53"
  shows "to_double (of_int n) = of_int n"
proof (cases "n = 0")
  case True
  then show ?thesis by (simp add: to_double_def)
next
  case False
  with assms have pos: "0 < n" by simp
  have b1: "1 \<le> bitlen n"
    using pos bitlen_eq_zero_iff [of n] bitlen_nonneg [of n] by linarith
  have b53: "bitlen n \<le> 53"
    using assms(2) pos by (simp add: bitlen_le_iff_power)
  define k where "k = nat (53 - bitlen n)"
  have e: "binade (of_int n) - 52 = - int k"
    using b53 by (simp add: binade_of_int [OF pos] k_def)
  have ulp: "(2::rat) powi (binade (of_int n) - 52) = 1 / 2 ^ k"
    by (simp add: e power_int_minus_divide)
  have "rat_of_int n / (1 / 2 ^ k) = of_int (n * 2 ^ k)"
    by simp
  then have "round_even (rat_of_int n / (1 / 2 ^ k)) = n * 2 ^ k"
    by (simp only: round_even_of_int)
  then show ?thesis
    using False by (simp add: to_double_def ulp Let_def)
qed

lemma to_double_uint: "to_double (of_int (uint (b :: u8))) = of_int (uint b)"
proof -
  have "uint b < 256"
    using uint_bounded [of b] by simp
  then have "uint b < 2 ^ 53"
    by simp
  then show ?thesis
    by (intro to_double_of_int) simp_all
qed

lemma to_uchar_uint: "to_uchar (of_int (uint (b :: u8))) = Inr b"
proof -
  have "uint b < 256"
    using uint_bounded [of b] by simp
  then show ?thesis
    by (simp add: to_uchar_def word_of_int_uint del: of_int_uint)
qed

lemma to_double_0: "to_double 0 = 0"
  by (simp add: to_double_def)

lemma to_double_1: "to_double 1 = 1"
  using to_double_of_int [of 1] by simp

lemma to_double_unsigned: "to_double (unsigned (b :: u8)) = unsigned b"
  using to_double_uint [of b] by simp

lemma to_uchar_unsigned: "to_uchar (unsigned (b :: u8)) = Inr b"
  using to_uchar_uint [of b] by simp

subsection \<open>The copy of the background\<close>

lemma mat_ok_row_offset:
  assumes ok: "mat_ok m" and y: "0 \<le> y" "y < rows m" and r: "0 \<le> r" "r < cols m * channels m"
  shows "0 \<le> y * step m + r \<and> y * step m + r < int (length (data m))"
proof -
  have st: "cols m * channels m \<le> step m"
    using ok by (simp add: mat_ok_def)
  with r have st0: "0 \<le> step m"
    by linarith
  have "y * step m \<le> (rows m - 1) * step m"
    using y st0 by (intro mult_right_mono) auto
  moreover have "(rows m - 1) * step m + cols m * channels m \<le> int (length (data m))"
    using ok y by (auto simp: mat_ok_def)
  moreover have "0 \<le> y * step m"
    using y st0 by simp
  ultimately show ?thesis
    using r by linarith
qed

lemma row_major_div_mod:
  fixes w :: int
  assumes "0 \<le> r" "r < w"
  shows "(y * w + r) div w = y" "(y * w + r) mod w = r"
  using assms by simp_all

lemma copyTo_empty:
  assumes "rows m = 0 \<or> cols m = 0"
  shows "copyTo m dst = Inr (dst\<lparr>rows := 0, cols := 0, data := []\<rparr>)"
  using assms by (auto simp: copyTo_def empty_mat_def)

lemma copyTo_ok:
  assumes ok: "mat_ok m" and ne: "0 < rows m" "0 < cols m"
  shows "\<exists>out. copyTo m dst = Inr out \<and> mat_ok out \<and> rows out = rows m \<and>
      cols out = cols m \<and> mtype out = mtype m \<and>
      (\<forall>y x c. 0 \<le> y \<and> y < rows m \<and> 0 \<le> x \<and> x < cols m \<and> 0 \<le> c \<and> c < channels m \<longrightarrow>
         (\<exists>v. channel_at m y x c = Inr v \<and> channel_at out y x c = Inr v))"
proof -
  define w where "w = cols m * channels m"
  define src where "src = map (\<lambda>k. (k div w) * step m + k mod w) [0..rows m * w - 1]"
  define out where "out = \<lparr>rows = rows m, cols = cols m, mtype = mtype m, step = w,
      data = map (\<lambda>i. data m ! nat i) src\<rparr>"
  have ch: "1 \<le> channels m"
    using ok by (rule mat_ok_channels)
  have dims: "0 \<le> rows m" "0 \<le> cols m"
    using ok by (simp_all add: mat_ok_def)
  then have w0: "0 \<le> w"
    using ch by (simp add: w_def)
  have inb: "0 \<le> (k div w) * step m + k mod w \<and>
      (k div w) * step m + k mod w < int (length (data m))"
    if k: "0 \<le> k" "k \<le> rows m * w - 1" for k
  proof -
    have wpos: "0 < w"
    proof (rule ccontr)
      assume "\<not> 0 < w"
      with w0 have "w = 0" by simp
      with k show False by simp
    qed
    have "k div w \<le> (rows m * w - 1) div w"
      using k(2) wpos by (rule zdiv_mono1)
    also have "rows m * w - 1 = (rows m - 1) * w + (w - 1)"
      by (simp add: algebra_simps)
    also have "\<dots> div w = rows m - 1"
      using wpos by (intro row_major_div_mod) auto
    finally have "k div w < rows m"
      by simp
    moreover have "0 \<le> k div w"
      using k wpos by (simp add: pos_imp_zdiv_nonneg_iff)
    moreover have "0 \<le> k mod w" "k mod w < w"
      using wpos by simp_all
    ultimately show ?thesis
      using ok by (intro mat_ok_row_offset) (simp_all add: w_def)
  qed
  then have "list_all (\<lambda>i. 0 \<le> i \<and> i < int (length (data m))) src"
    by (auto simp: src_def list_all_iff)
  moreover have "\<not> empty_mat m"
  proof -
    have "0 \<le> (rows m - 1) * step m + 0 \<and> (rows m - 1) * step m + 0 < int (length (data m))"
      using ok ne ch by (intro mat_ok_row_offset) simp_all
    then have "data m \<noteq> []"
      by auto
    with ne show ?thesis
      by (simp add: empty_mat_def)
  qed
  ultimately have run: "copyTo m dst = Inr out"
    by (simp add: copyTo_def Let_def out_def src_def w_def)
  have len: "int (length (data out)) = rows m * w"
    using dims w0 by (simp add: out_def src_def)
  have px: "\<exists>v. channel_at m y x c = Inr v \<and> channel_at out y x c = Inr v"
    if "0 \<le> y" "y < rows m" "0 \<le> x" "x < cols m" "0 \<le> c" "c < channels m" for y x c
  proof -
    define r where "r = x * channels m + c"
    have r: "0 \<le> r" "r < w"
      using pixel_offset_bounds [of x "cols m" c "channels m"] that ch
      by (simp_all add: r_def w_def)
    define k where "k = y * w + r"
    have "(y + 1) * w \<le> rows m * w"
      using that w0 by (intro mult_right_mono) auto
    then have k: "0 \<le> k" "k \<le> rows m * w - 1"
      using that r w0 by (simp_all add: k_def algebra_simps)
    have dm: "k div w = y" "k mod w = r"
      using r by (simp_all add: k_def)
    have srck: "src ! nat k = y * step m + r"
      using k by (simp add: src_def dm)
    have lk: "nat k < length src"
      using k by (simp add: src_def)
    have b: "0 \<le> y * step m + r \<and> y * step m + r < int (length (data m))"
      using inb [OF k] by (simp add: dm)
    have "channel_at m y x c = Inr (data m ! nat (y * step m + r))"
      using b by (simp add: channel_at_def byte_at_def r_def add.assoc)
    moreover have "channels out = channels m" "step out = w"
      by (simp_all add: out_def channels_def)
    then have "channel_at out y x c = byte_at out k"
      by (simp add: channel_at_def k_def r_def add.assoc)
    then have "channel_at out y x c = Inr (data m ! nat (y * step m + r))"
      using k lk len srck by (simp add: byte_at_def out_def)
    ultimately show ?thesis
      by simp
  qed
  have "(rows m - 1) * w + w = rows m * w"
    by (simp add: algebra_simps)
  with ok len have "mat_ok out"
    by (simp add: mat_ok_def channels_def out_def w_def)
  with run px show ?thesis
    by (intro exI [of _ out]) (auto simp: out_def)
qed

subsection \<open>A foreground that is transparent everywhere\<close>

lemma column_offset_int32:
  assumes "0 \<le> fX" "fX < cols fg" "0 \<le> channels fg" "(cols fg - 1) * channels fg \<le> INT_MAX"
  shows "int32 (fX * channels fg) = Inr (fX * channels fg)"
proof -
  have "fX * channels fg \<le> (cols fg - 1) * channels fg"
    using assms by (intro mult_right_mono) auto
  moreover have "0 \<le> fX * channels fg"
    using assms by simp
  ultimately show ?thesis
    using assms(4) by (simp add: int32_def INT_MIN_def)
qed

lemma blend_channels_transparent:
  "blend_channels bg fg y x fY fX 0 c out = Inr out"
  by (subst blend_channels.simps) simp

lemma blend_pixel_transparent:
  assumes "channel_at fg fY fX 3 = Inr 0" "int32 (fX * channels fg) = Inr (fX * channels fg)"
  shows "blend_pixel bg fg y x fY fX out = Inr out"
  using assms
  by (simp add: blend_pixel_def channel_at_def to_double_def blend_channels_transparent)

lemma overlay_cols_transparent:
  assumes alpha: "\<forall>fX. 0 \<le> fX \<and> fX < cols fg \<longrightarrow> channel_at fg fY fX 3 = Inr 0"
    and lim: "cols fg \<le> INT_MAX"
    and wid: "0 \<le> channels fg" "(cols fg - 1) * channels fg \<le> INT_MAX"
    and x: "pt_x loc \<le> x" "x - pt_x loc \<le> INT_MAX"
  shows "overlay_cols bg fg loc y fY x out = Inr out"
  using x
proof (induction "nat (cols bg - x)" arbitrary: x)
  case 0
  then show ?case
    by (subst overlay_cols.simps) simp
next
  case (Suc n)
  then have lt: "x < cols bg" by linarith
  have i: "int32 (x - pt_x loc) = Inr (x - pt_x loc)"
    using Suc.prems by (simp add: int32_def INT_MIN_def)
  show ?case
  proof (cases "cols fg \<le> x - pt_x loc")
    case True
    with lt i show ?thesis
      by (subst overlay_cols.simps) simp
  next
    case False
    have n: "n = nat (cols bg - (x + 1))" "pt_x loc \<le> x + 1" "x + 1 - pt_x loc \<le> INT_MAX"
      using Suc.hyps(2) Suc.prems False lim by linarith+
    have "channel_at fg fY (x - pt_x loc) 3 = Inr 0"
      using alpha False Suc.prems by auto
    moreover have "int32 ((x - pt_x loc) * channels fg) = Inr ((x - pt_x loc) * channels fg)"
      using False Suc.prems wid by (intro column_offset_int32) auto
    ultimately have "blend_pixel bg fg y x fY (x - pt_x loc) out = Inr out"
      by (rule blend_pixel_transparent)
    with False lt i Suc.hyps(1) [OF n] show ?thesis
      by (subst overlay_cols.simps) simp
  qed
qed

lemma overlay_rows_transparent:
  assumes alpha: "\<forall>fY fX. 0 \<le> fY \<and> fY < rows fg \<and> 0 \<le> fX \<and> fX < cols fg \<longrightarrow>
        channel_at fg fY fX 3 = Inr 0"
    and lim: "rows fg \<le> INT_MAX" "cols fg \<le> INT_MAX"
    and wid: "0 \<le> channels fg" "(cols fg - 1) * channels fg \<le> INT_MAX"
    and lx: "INT_MIN < pt_x loc"
    and y: "pt_y loc \<le> y" "y - pt_y loc \<le> INT_MAX"
  shows "overlay_rows bg fg loc y out = Inr out"
  using y
proof (induction "nat (rows bg - y)" arbitrary: y)
  case 0
  then show ?case
    by (subst overlay_rows.simps) simp
next
  case (Suc n)
  then have lt: "y < rows bg" by linarith
  have i: "int32 (y - pt_y loc) = Inr (y - pt_y loc)"
    using Suc.prems by (simp add: int32_def INT_MIN_def)
  show ?case
  proof (cases "rows fg \<le> y - pt_y loc")
    case True
    with lt i show ?thesis
      by (subst overlay_rows.simps) simp
  next
    case False
    have n: "n = nat (rows bg - (y + 1))" "pt_y loc \<le> y + 1" "y + 1 - pt_y loc \<le> INT_MAX"
      using Suc.hyps(2) Suc.prems False lim by linarith+
    have x0: "pt_x loc \<le> max (pt_x loc) 0" "max (pt_x loc) 0 - pt_x loc \<le> INT_MAX"
      using lx by (simp_all add: INT_MIN_def INT_MAX_def max_def)
    have "\<forall>fX. 0 \<le> fX \<and> fX < cols fg \<longrightarrow> channel_at fg (y - pt_y loc) fX 3 = Inr 0"
      using alpha False Suc.prems by auto
    then have "overlay_cols bg fg loc y (y - pt_y loc) (max (pt_x loc) 0) out = Inr out"
      using lim(2) wid x0 by (rule overlay_cols_transparent)
    with False lt i Suc.hyps(1) [OF n] show ?thesis
      by (subst overlay_rows.simps) simp
  qed
qed

lemma foreground_width:
  assumes "mat_ok fg" "mtype fg = CV_8UC4" "cols fg \<le> 2 ^ 29"
  shows "0 \<le> channels fg" "(cols fg - 1) * channels fg \<le> INT_MAX"
  using assms by (simp_all add: channels_CV_8UC4 INT_MAX_def)

text \<open>
  Claim C4, as far as it holds. For a background, a foreground of type \<open>CV_8UC4\<close>
  of at most \<open>2\<^sup>2\<^sup>9\<close> columns whose fourth channel is 0 at every pixel, and a
  location whose two coordinates are greater than \<open>INT_MIN\<close>, the compositor returns
  an output that has the bytes of the background at every pixel and channel, and
  the size and type of a background that has pixels.
\<close>

theorem transparent_foreground_keeps_background:
  assumes "mat_ok background" "mat_ok foreground" "mtype foreground = CV_8UC4"
    and "\<forall>fY fX. 0 \<le> fY \<and> fY < rows foreground \<and> 0 \<le> fX \<and> fX < cols foreground \<longrightarrow>
           channel_at foreground fY fX 3 = Inr 0"
    and "INT_MIN < pt_x location" "INT_MIN < pt_y location"
    and "cols foreground \<le> 2 ^ 29"
  shows "\<exists>out. overlayImage background foreground output location = Inr out \<and>
           (0 < rows background \<and> 0 < cols background \<longrightarrow>
              rows out = rows background \<and> cols out = cols background \<and>
              mtype out = mtype background) \<and>
           (\<forall>y x c. 0 \<le> y \<and> y < rows background \<and> 0 \<le> x \<and> x < cols background \<and>
                    0 \<le> c \<and> c < channels background \<longrightarrow>
              (\<exists>v. channel_at background y x c = Inr v \<and> channel_at out y x c = Inr v))"
proof -
  have lim: "rows foreground \<le> INT_MAX" "cols foreground \<le> INT_MAX"
    using assms(2) by (simp_all add: mat_ok_def)
  note wid = foreground_width [OF assms(2,3,7)]
  have y0: "pt_y location \<le> max (pt_y location) 0"
    "max (pt_y location) 0 - pt_y location \<le> INT_MAX"
    using assms(6) by (simp_all add: INT_MIN_def INT_MAX_def max_def)
  have run: "overlay_rows background foreground location (max (pt_y location) 0) out = Inr out"
    for out
    using assms(4) lim wid assms(5) y0 by (rule overlay_rows_transparent)
  show ?thesis
  proof (cases "0 < rows background \<and> 0 < cols background")
    case True
    from copyTo_ok [OF assms(1), where dst = "output"] True
    obtain out where cp: "copyTo background output = Inr out"
      and sh: "rows out = rows background" "cols out = cols background"
        "mtype out = mtype background"
      and px: "\<forall>y x c. 0 \<le> y \<and> y < rows background \<and> 0 \<le> x \<and> x < cols background \<and>
                    0 \<le> c \<and> c < channels background \<longrightarrow>
              (\<exists>v. channel_at background y x c = Inr v \<and> channel_at out y x c = Inr v)"
      by blast
    have "overlayImage background foreground output location = Inr out"
      by (simp add: overlayImage_def cp run)
    with sh px show ?thesis
      by blast
  next
    case False
    then have e: "rows background = 0 \<or> cols background = 0"
      using assms(1) by (auto simp: mat_ok_def)
    have "overlayImage background foreground output location
        = Inr (output\<lparr>rows := 0, cols := 0, data := []\<rparr>)"
      by (simp add: overlayImage_def copyTo_empty [OF e] run)
    moreover have "\<not> (0 \<le> y \<and> y < rows background \<and> 0 \<le> x \<and> x < cols background)" for y x
      using e by auto
    ultimately show ?thesis
      using False by blast
  qed
qed

theorem transparent_foreground_keeps_background_witness:
  "mat_ok bg_2x3 \<and> mat_ok fg_clear_2x2 \<and> mtype fg_clear_2x2 = CV_8UC4 \<and>
   channel_at fg_clear_2x2 0 0 3 = Inr 0 \<and> channel_at fg_clear_2x2 1 1 3 = Inr 0 \<and>
   INT_MIN < pt_x \<lparr>pt_x = 2, pt_y = - 1\<rparr> \<and> INT_MIN < pt_y \<lparr>pt_x = 2, pt_y = - 1\<rparr> \<and>
   cols fg_clear_2x2 \<le> 2 ^ 29 \<and>
   (\<exists>out. overlayImage bg_2x3 fg_clear_2x2 empty_Mat \<lparr>pt_x = 2, pt_y = - 1\<rparr> = Inr out \<and>
      rows out = 2 \<and> cols out = 3 \<and> mtype out = CV_8UC3 \<and>
      channel_at out 0 2 0 = Inr 7 \<and> channel_at out 0 2 1 = Inr 8 \<and>
      channel_at out 0 2 2 = Inr 9 \<and> channel_at out 1 0 0 = Inr 10)"
proof -
  have h: "mat_ok bg_2x3" "mat_ok fg_clear_2x2" "mtype fg_clear_2x2 = CV_8UC4"
    by code_simp+
  have "\<forall>fY \<in> set [0..1]. \<forall>fX \<in> set [0..1]. channel_at fg_clear_2x2 fY fX 3 = Inr 0"
    by code_simp
  moreover have "rows fg_clear_2x2 = 2" "cols fg_clear_2x2 = 2"
    by (simp_all add: fg_clear_2x2_def)
  ultimately have a: "\<forall>fY fX. 0 \<le> fY \<and> fY < rows fg_clear_2x2 \<and> 0 \<le> fX \<and>
      fX < cols fg_clear_2x2 \<longrightarrow> channel_at fg_clear_2x2 fY fX 3 = Inr 0"
    by auto
  have l: "INT_MIN < pt_x \<lparr>pt_x = 2, pt_y = - 1\<rparr>" "INT_MIN < pt_y \<lparr>pt_x = 2, pt_y = - 1\<rparr>"
    by (simp_all add: INT_MIN_def)
  have w: "cols fg_clear_2x2 \<le> 2 ^ 29"
    by (simp add: fg_clear_2x2_def)
  have b: "rows bg_2x3 = 2" "cols bg_2x3 = 3" "mtype bg_2x3 = CV_8UC3" "channels bg_2x3 = 3"
    by (simp_all add: bg_2x3_def CV_8UC3_def channels_def)
  have v: "channel_at bg_2x3 0 2 0 = Inr 7" "channel_at bg_2x3 0 2 1 = Inr 8"
    "channel_at bg_2x3 0 2 2 = Inr 9" "channel_at bg_2x3 1 0 0 = Inr 10"
    by code_simp+
  from transparent_foreground_keeps_background [OF h a l w, of empty_Mat]
  obtain out where
    run: "overlayImage bg_2x3 fg_clear_2x2 empty_Mat \<lparr>pt_x = 2, pt_y = - 1\<rparr> = Inr out"
    and sh: "rows out = 2" "cols out = 3" "mtype out = CV_8UC3"
    and eq: "\<forall>y x c. 0 \<le> y \<and> y < 2 \<and> 0 \<le> x \<and> x < 3 \<and> 0 \<le> c \<and> c < 3 \<longrightarrow>
              (\<exists>v. channel_at bg_2x3 y x c = Inr v \<and> channel_at out y x c = Inr v)"
    unfolding b by auto
  have "channel_at out y x c = channel_at bg_2x3 y x c"
    if "0 \<le> y \<and> y < 2 \<and> 0 \<le> x \<and> x < 3 \<and> 0 \<le> c \<and> c < 3" for y x c
    using eq that by fastforce
  from this [of 0 2 0] this [of 0 2 1] this [of 0 2 2] this [of 1 0 0]
  have "channel_at out 0 2 0 = Inr 7" "channel_at out 0 2 1 = Inr 8"
    "channel_at out 0 2 2 = Inr 9" "channel_at out 1 0 0 = Inr 10"
    by (simp_all add: v)
  moreover have "channel_at fg_clear_2x2 0 0 3 = Inr 0" "channel_at fg_clear_2x2 1 1 3 = Inr 0"
    by code_simp+
  ultimately show ?thesis
    using run sh h l w by blast
qed

text \<open>
  Claim C4 names any foreground and any location, and fails in two ways. At
  \<open>location.y = INT_MIN\<close> the first row is \<open>y = max(location.y, 0) = 0\<close> and
  \<open>fY = y - location.y\<close> is \<open>2\<^sup>3\<^sup>1\<close>, which is not an \<^verbatim>\<open>int\<close>. With a foreground of
  \<open>2\<^sup>2\<^sup>9 + 1\<close> columns at \<open>location.x = - 2\<^sup>2\<^sup>9\<close> the first column is \<open>x = 0\<close>,
  \<open>fX = 2\<^sup>2\<^sup>9\<close> lies inside the foreground, and the product
  \<^verbatim>\<open>fX * foreground.channels()\<close> of the read of the fourth channel is \<open>2\<^sup>3\<^sup>1\<close>. In
  both cases an \<^verbatim>\<open>int\<close> computation overflows and the call has no defined
  result, although every byte of the foreground's fourth channel is 0.
\<close>

theorem transparent_foreground_counterexample:
  "channel_at fg_clear_1x1 0 0 3 = Inr 0 \<and>
   overlayImage bg_1x1 fg_clear_1x1 empty_Mat \<lparr>pt_x = 0, pt_y = INT_MIN\<rparr> = Inl SignedOverflow \<and>
   mat_ok fg_wide_clear \<and> mtype fg_wide_clear = CV_8UC4 \<and>
   set (data fg_wide_clear) \<subseteq> {0} \<and>
   overlayImage bg_1x1 fg_wide_clear empty_Mat \<lparr>pt_x = - (2 ^ 29), pt_y = 0\<rparr>
     = Inl SignedOverflow"
proof -
  have a: "channel_at fg_clear_1x1 0 0 3 = Inr 0"
    "overlayImage bg_1x1 fg_clear_1x1 empty_Mat \<lparr>pt_x = 0, pt_y = INT_MIN\<rparr> = Inl SignedOverflow"
    by code_simp+
  have b: "set (data fg_wide_clear) \<subseteq> {0}" "mtype fg_wide_clear = CV_8UC4"
    by (simp_all add: fg_wide_clear_def CV_8UC4_def)
  have ok: "mat_ok fg_wide_clear"
    by (simp add: mat_ok_def fg_wide_clear_def channels_def INT_MAX_def)
  have f: "rows fg_wide_clear = 1" "cols fg_wide_clear = 2 ^ 29 + 1" "channels fg_wide_clear = 4"
    by (simp_all add: fg_wide_clear_def channels_def)
  have g: "rows bg_1x1 = 1" "cols bg_1x1 = 1"
    by (simp_all add: bg_1x1_def)
  have cp: "copyTo bg_1x1 empty_Mat = Inr bg_1x1"
    by code_simp
  have "blend_pixel bg_1x1 fg_wide_clear 0 0 0 (2 ^ 29) bg_1x1 = Inl SignedOverflow"
    by (simp add: blend_pixel_def f int32_def INT_MAX_def)
  then have "overlay_cols bg_1x1 fg_wide_clear \<lparr>pt_x = - (2 ^ 29), pt_y = 0\<rparr> 0 0 0 bg_1x1
      = Inl SignedOverflow"
    by (subst overlay_cols.simps) (simp add: f g int32_def INT_MIN_def INT_MAX_def)
  then have "overlay_rows bg_1x1 fg_wide_clear \<lparr>pt_x = - (2 ^ 29), pt_y = 0\<rparr> 0 bg_1x1
      = Inl SignedOverflow"
    by (subst overlay_rows.simps) (simp add: f g int32_def INT_MIN_def INT_MAX_def)
  then have "overlayImage bg_1x1 fg_wide_clear empty_Mat \<lparr>pt_x = - (2 ^ 29), pt_y = 0\<rparr>
      = Inl SignedOverflow"
    by (simp add: overlayImage_def cp)
  with a b ok show ?thesis
    by simp
qed

subsection \<open>A foreground that is opaque everywhere\<close>

lemma channel_offsets_inj:
  fixes s n w :: int
  assumes eq: "y * s + x * n + c = y' * s + x' * n + c'"
    and c: "0 \<le> c" "c < n" "0 \<le> c'" "c' < n"
    and x: "0 \<le> x" "x < w" "0 \<le> x'" "x' < w" and s: "w * n \<le> s"
  shows "y = y' \<and> x = x' \<and> c = c'"
proof -
  have n: "0 < n" using c by linarith
  have a: "0 \<le> x * n + c \<and> x * n + c < w * n" "0 \<le> x' * n + c' \<and> x' * n + c' < w * n"
    using c x n by (intro pixel_offset_bounds; simp)+
  from eq have "y * s + (x * n + c) = y' * s + (x' * n + c')"
    by simp
  then have "y = y' \<and> x * n + c = x' * n + c'"
    using a s by (intro row_offset_inj) auto
  moreover from this have "x = x' \<and> c = c'"
    using c by (intro row_offset_inj) auto
  ultimately show ?thesis
    by simp
qed

lemma channel_at_set_byte:
  assumes wr: "set_byte m (y * step m + channels m * x + c) v = Inr m'"
    and st: "cols m * channels m \<le> step m"
    and xc: "0 \<le> x" "x < cols m" "0 \<le> c" "c < channels m"
    and xc': "0 \<le> x'" "x' < cols m" "0 \<le> c'" "c' < channels m"
  shows "channel_at m' y' x' c' =
     (if y' = y \<and> x' = x \<and> c' = c then Inr v else channel_at m y' x' c')"
proof -
  have sh: "step m' = step m" "channels m' = channels m"
    using set_byte_shape [OF wr] by (simp_all add: channels_def)
  have "y' * step m + x' * channels m + c' = y * step m + channels m * x + c \<longleftrightarrow>
      y' = y \<and> x' = x \<and> c' = c"
    using channel_offsets_inj [of y' "step m" x' "channels m" c' y x c "cols m"] xc xc' st
    by (auto simp: mult.commute)
  then show ?thesis
    by (simp add: channel_at_def sh byte_at_set_byte [OF wr])
qed

lemma blend_channels_opaque:
  assumes bg: "mat_ok bg" "mtype bg = CV_8UC3" and fg: "mat_ok fg" "mtype fg = CV_8UC4"
    and y: "0 \<le> y" "y < rows bg" and x: "0 \<le> x" "x < cols bg"
    and fY: "0 \<le> fY" "fY < rows fg" and fX: "0 \<le> fX" "fX < cols fg"
    and c: "0 \<le> c" "c \<le> 3"
    and out: "mat_ok out" "mtype out = CV_8UC3" "rows out = rows bg" "cols out = cols bg"
    and wid: "fX * 4 \<le> INT_MAX" "x * 3 \<le> INT_MAX"
  shows "\<exists>out'. blend_channels bg fg y x fY fX 1 c out = Inr out' \<and>
      mat_ok out' \<and> mtype out' = CV_8UC3 \<and> rows out' = rows bg \<and> cols out' = cols bg \<and>
      (\<forall>y' x' c'. 0 \<le> y' \<and> y' < rows bg \<and> 0 \<le> x' \<and> x' < cols bg \<and> 0 \<le> c' \<and> c' < 3 \<longrightarrow>
         channel_at out' y' x' c' =
           (if y' = y \<and> x' = x \<and> c \<le> c' then channel_at fg fY fX c'
            else channel_at out y' x' c'))"
  using c out
proof (induction "nat (3 - c)" arbitrary: c out)
  case 0
  then have "\<not> c < channels out"
    by (simp add: channels_CV_8UC3)
  then have "blend_channels bg fg y x fY fX 1 c out = Inr out"
    by (subst blend_channels.simps) simp
  with 0 show ?case
    by auto
next
  case (Suc n)
  then have c3: "c < 3" by linarith
  note o = Suc.prems(3-6)
  have cho: "channels out = 3" and chb: "channels bg = 3" and chf: "channels fg = 4"
    using o(2) bg(2) fg(2) by (simp_all add: channels_CV_8UC3 channels_CV_8UC4)
  have pf: "int32 (fX * channels fg) = Inr (fX * 4)"
    and pb: "int32 (x * channels bg) = Inr (x * 3)"
    and po: "int32 (3 * x) = Inr (3 * x)"
    using wid fX x by (simp_all add: int32_def INT_MIN_def chf chb cho)
  have "0 \<le> fY * step fg + fX * 4 + c \<and> fY * step fg + fX * 4 + c < int (length (data fg))"
    using fg(1) fY fX Suc.prems(1) c3 by (intro mat_ok_offset) (simp_all add: chf)
  then obtain f where rf: "byte_at fg (fY * step fg + fX * 4 + c) = Inr f"
    by (simp add: byte_at_def)
  have "0 \<le> y * step bg + x * 3 + c \<and> y * step bg + x * 3 + c < int (length (data bg))"
    using bg(1) y x Suc.prems(1) c3 by (intro mat_ok_offset) (simp_all add: chb)
  then obtain b where rb: "byte_at bg (y * step bg + x * 3 + c) = Inr b"
    by (simp add: byte_at_def)
  have "0 \<le> y * step out + x * 3 + c \<and> y * step out + x * 3 + c < int (length (data out))"
    using o y x Suc.prems(1) c3 by (intro mat_ok_offset) (simp_all add: cho)
  then obtain out1 where wr: "set_byte out (y * step out + channels out * x + c) f = Inr out1"
    using set_byte_ok [of "y * step out + channels out * x + c" out f]
    by (auto simp: cho mult.commute)
  note sh = set_byte_shape [OF wr]
  have o1: "mat_ok out1" "mtype out1 = CV_8UC3" "rows out1 = rows bg" "cols out1 = cols bg"
    using o sh mat_ok_shape [OF sh] by simp_all
  have st: "cols out * channels out \<le> step out"
    using o(1) by (simp add: mat_ok_def)
  have one: "channel_at out1 y' x' c' =
      (if y' = y \<and> x' = x \<and> c' = c then Inr f else channel_at out y' x' c')"
    if "0 \<le> x'" "x' < cols bg" "0 \<le> c'" "c' < 3" for y' x' c'
    using channel_at_set_byte [OF wr st, of x' c' y'] x Suc.prems(1) c3 that o
    by (simp add: cho)
  have "n = nat (3 - (c + 1))" "0 \<le> c + 1" "c + 1 \<le> 3"
    using Suc.hyps(2) Suc.prems(1) c3 by linarith+
  from Suc.hyps(1) [OF this o1]
  obtain out' where rest: "blend_channels bg fg y x fY fX 1 (c + 1) out1 = Inr out'"
    and o': "mat_ok out'" "mtype out' = CV_8UC3" "rows out' = rows bg" "cols out' = cols bg"
    and eff: "\<And>y' x' c'. 0 \<le> y' \<Longrightarrow> y' < rows bg \<Longrightarrow> 0 \<le> x' \<Longrightarrow> x' < cols bg \<Longrightarrow>
        0 \<le> c' \<Longrightarrow> c' < 3 \<Longrightarrow>
        channel_at out' y' x' c' =
          (if y' = y \<and> x' = x \<and> c + 1 \<le> c' then channel_at fg fY fX c'
           else channel_at out1 y' x' c')"
    by auto
  from wr have wr': "set_byte out (y * step out + 3 * x + c) f = Inr out1"
    by (simp add: cho)
  have "blend_channels bg fg y x fY fX 1 c out = Inr out'"
    using c3 rest
    by (subst blend_channels.simps)
      (simp add: cho pf pb po rf rb wr' to_double_0 to_double_unsigned to_uchar_unsigned)
  moreover have "channel_at out' y' x' c' =
      (if y' = y \<and> x' = x \<and> c \<le> c' then channel_at fg fY fX c' else channel_at out y' x' c')"
    if "0 \<le> y'" "y' < rows bg" "0 \<le> x'" "x' < cols bg" "0 \<le> c'" "c' < 3" for y' x' c'
    using eff [OF that] one [OF that(3-6)] rf by (auto simp: channel_at_def chf)
  ultimately show ?case
    using o' by auto
qed

lemma blend_pixel_opaque:
  assumes bg: "mat_ok bg" "mtype bg = CV_8UC3" and fg: "mat_ok fg" "mtype fg = CV_8UC4"
    and alpha: "channel_at fg fY fX 3 = Inr 255"
    and y: "0 \<le> y" "y < rows bg" and x: "0 \<le> x" "x < cols bg"
    and fY: "0 \<le> fY" "fY < rows fg" and fX: "0 \<le> fX" "fX < cols fg"
    and out: "mat_ok out" "mtype out = CV_8UC3" "rows out = rows bg" "cols out = cols bg"
    and wid: "fX * 4 \<le> INT_MAX" "x * 3 \<le> INT_MAX"
  shows "\<exists>out'. blend_pixel bg fg y x fY fX out = Inr out' \<and>
      mat_ok out' \<and> mtype out' = CV_8UC3 \<and> rows out' = rows bg \<and> cols out' = cols bg \<and>
      (\<forall>y' x' c'. 0 \<le> y' \<and> y' < rows bg \<and> 0 \<le> x' \<and> x' < cols bg \<and> 0 \<le> c' \<and> c' < 3 \<longrightarrow>
         channel_at out' y' x' c' =
           (if y' = y \<and> x' = x then channel_at fg fY fX c' else channel_at out y' x' c'))"
proof -
  have "int32 (fX * channels fg) = Inr (fX * channels fg)"
    using wid(1) fX(1) fg(2) by (simp add: int32_def INT_MIN_def channels_CV_8UC4)
  then have "blend_pixel bg fg y x fY fX out = blend_channels bg fg y x fY fX 1 0 out"
    using alpha by (simp add: blend_pixel_def channel_at_def to_double_1)
  with blend_channels_opaque [OF bg fg y x fY fX order_refl _ out wid] show ?thesis
    by simp
qed

lemma overlay_cols_opaque:
  assumes bg: "mat_ok bg" "mtype bg = CV_8UC3" and fg: "mat_ok fg" "mtype fg = CV_8UC4"
    and loc: "pt_x loc = 0" "pt_y loc = 0"
    and alpha: "\<forall>fX. 0 \<le> fX \<and> fX < cols fg \<longrightarrow> channel_at fg y fX 3 = Inr 255"
    and y: "0 \<le> y" "y < rows bg" "y < rows fg"
    and x: "0 \<le> x" "x \<le> cols bg"
    and out: "mat_ok out" "mtype out = CV_8UC3" "rows out = rows bg" "cols out = cols bg"
    and wid: "cols fg \<le> 2 ^ 29"
  shows "\<exists>out'. overlay_cols bg fg loc y y x out = Inr out' \<and>
      mat_ok out' \<and> mtype out' = CV_8UC3 \<and> rows out' = rows bg \<and> cols out' = cols bg \<and>
      (\<forall>y' x' c'. 0 \<le> y' \<and> y' < rows bg \<and> 0 \<le> x' \<and> x' < cols bg \<and> 0 \<le> c' \<and> c' < 3 \<longrightarrow>
         channel_at out' y' x' c' =
           (if y' = y \<and> x \<le> x' \<and> x' < cols fg then channel_at fg y x' c'
            else channel_at out y' x' c'))"
  using x out
proof (induction "nat (cols bg - x)" arbitrary: x out)
  case 0
  then have "\<not> x < cols bg" by simp
  then have "overlay_cols bg fg loc y y x out = Inr out"
    by (subst overlay_cols.simps) simp
  moreover have "\<not> (x \<le> x' \<and> x' < cols fg)" if "x' < cols bg" for x'
    using that 0 by linarith
  ultimately show ?case
    using 0 by auto
next
  case (Suc n)
  then have lt: "x < cols bg" by linarith
  note o = Suc.prems(3-6)
  have "cols bg \<le> INT_MAX"
    using bg(1) by (simp add: mat_ok_def)
  then have i: "int32 (x - pt_x loc) = Inr x"
    using Suc.prems(1) lt by (simp add: int32_def INT_MIN_def loc)
  show ?case
  proof (cases "cols fg \<le> x")
    case True
    then have "overlay_cols bg fg loc y y x out = Inr out"
      using lt i by (subst overlay_cols.simps) simp
    with True o show ?thesis
      by auto
  next
    case False
    then have a: "channel_at fg y x 3 = Inr 255"
      using alpha Suc.prems(1) by auto
    have w: "x * 4 \<le> INT_MAX" "x * 3 \<le> INT_MAX"
      using False wid Suc.prems(1) by (simp_all add: INT_MAX_def)
    from blend_pixel_opaque [OF bg fg a y(1,2) Suc.prems(1) lt y(1,3) Suc.prems(1) _ o w] False
    obtain out1 where px: "blend_pixel bg fg y x y x out = Inr out1"
      and o1: "mat_ok out1" "mtype out1 = CV_8UC3" "rows out1 = rows bg" "cols out1 = cols bg"
      and one: "\<And>y' x' c'. 0 \<le> y' \<Longrightarrow> y' < rows bg \<Longrightarrow> 0 \<le> x' \<Longrightarrow> x' < cols bg \<Longrightarrow>
          0 \<le> c' \<Longrightarrow> c' < 3 \<Longrightarrow>
          channel_at out1 y' x' c' =
            (if y' = y \<and> x' = x then channel_at fg y x c' else channel_at out y' x' c')"
      by auto
    have "n = nat (cols bg - (x + 1))" "0 \<le> x + 1" "x + 1 \<le> cols bg"
      using Suc.hyps(2) Suc.prems(1) lt by linarith+
    from Suc.hyps(1) [OF this o1]
    obtain out' where rest: "overlay_cols bg fg loc y y (x + 1) out1 = Inr out'"
      and o': "mat_ok out'" "mtype out' = CV_8UC3" "rows out' = rows bg" "cols out' = cols bg"
      and eff: "\<And>y' x' c'. 0 \<le> y' \<Longrightarrow> y' < rows bg \<Longrightarrow> 0 \<le> x' \<Longrightarrow> x' < cols bg \<Longrightarrow>
          0 \<le> c' \<Longrightarrow> c' < 3 \<Longrightarrow>
          channel_at out' y' x' c' =
            (if y' = y \<and> x + 1 \<le> x' \<and> x' < cols fg then channel_at fg y x' c'
             else channel_at out1 y' x' c')"
      by auto
    have "overlay_cols bg fg loc y y x out = Inr out'"
      using lt i False px rest by (subst overlay_cols.simps) simp
    moreover have "channel_at out' y' x' c' =
        (if y' = y \<and> x \<le> x' \<and> x' < cols fg then channel_at fg y x' c'
         else channel_at out y' x' c')"
      if "0 \<le> y'" "y' < rows bg" "0 \<le> x'" "x' < cols bg" "0 \<le> c'" "c' < 3" for y' x' c'
      using eff [OF that] one [OF that] False by auto
    ultimately show ?thesis
      using o' by auto
  qed
qed

lemma overlay_rows_opaque:
  assumes bg: "mat_ok bg" "mtype bg = CV_8UC3" and fg: "mat_ok fg" "mtype fg = CV_8UC4"
    and loc: "pt_x loc = 0" "pt_y loc = 0"
    and alpha: "\<forall>fY fX. 0 \<le> fY \<and> fY < rows fg \<and> 0 \<le> fX \<and> fX < cols fg \<longrightarrow>
        channel_at fg fY fX 3 = Inr 255"
    and y: "0 \<le> y" "y \<le> rows bg"
    and out: "mat_ok out" "mtype out = CV_8UC3" "rows out = rows bg" "cols out = cols bg"
    and wid: "cols fg \<le> 2 ^ 29"
  shows "\<exists>out'. overlay_rows bg fg loc y out = Inr out' \<and>
      mat_ok out' \<and> mtype out' = CV_8UC3 \<and> rows out' = rows bg \<and> cols out' = cols bg \<and>
      (\<forall>y' x' c'. 0 \<le> y' \<and> y' < rows bg \<and> 0 \<le> x' \<and> x' < cols bg \<and> 0 \<le> c' \<and> c' < 3 \<longrightarrow>
         channel_at out' y' x' c' =
           (if y \<le> y' \<and> y' < rows fg \<and> x' < cols fg then channel_at fg y' x' c'
            else channel_at out y' x' c'))"
  using y out
proof (induction "nat (rows bg - y)" arbitrary: y out)
  case 0
  then have "\<not> y < rows bg" by simp
  then have "overlay_rows bg fg loc y out = Inr out"
    by (subst overlay_rows.simps) simp
  moreover have "\<not> (y \<le> y' \<and> y' < rows fg \<and> x' < cols fg)" if "y' < rows bg" for y' x'
    using that 0 by linarith
  ultimately show ?case
    using 0 by auto
next
  case (Suc n)
  then have lt: "y < rows bg" by linarith
  note o = Suc.prems(3-6)
  have "rows bg \<le> INT_MAX" and c0: "0 \<le> cols bg"
    using bg(1) by (simp_all add: mat_ok_def)
  then have i: "int32 (y - pt_y loc) = Inr y"
    using Suc.prems(1) lt by (simp add: int32_def INT_MIN_def loc)
  show ?case
  proof (cases "rows fg \<le> y")
    case True
    then have "overlay_rows bg fg loc y out = Inr out"
      using lt i by (subst overlay_rows.simps) simp
    with True o show ?thesis
      by auto
  next
    case False
    then have a: "\<forall>fX. 0 \<le> fX \<and> fX < cols fg \<longrightarrow> channel_at fg y fX 3 = Inr 255"
      using alpha Suc.prems(1) by auto
    from overlay_cols_opaque [OF bg fg loc a Suc.prems(1) lt _ order_refl c0 o wid] False
    obtain out1 where row: "overlay_cols bg fg loc y y 0 out = Inr out1"
      and o1: "mat_ok out1" "mtype out1 = CV_8UC3" "rows out1 = rows bg" "cols out1 = cols bg"
      and one: "\<And>y' x' c'. 0 \<le> y' \<Longrightarrow> y' < rows bg \<Longrightarrow> 0 \<le> x' \<Longrightarrow> x' < cols bg \<Longrightarrow>
          0 \<le> c' \<Longrightarrow> c' < 3 \<Longrightarrow>
          channel_at out1 y' x' c' =
            (if y' = y \<and> 0 \<le> x' \<and> x' < cols fg then channel_at fg y x' c'
             else channel_at out y' x' c')"
      by auto
    have "n = nat (rows bg - (y + 1))" "0 \<le> y + 1" "y + 1 \<le> rows bg"
      using Suc.hyps(2) Suc.prems(1) lt by linarith+
    from Suc.hyps(1) [OF this o1]
    obtain out' where rest: "overlay_rows bg fg loc (y + 1) out1 = Inr out'"
      and o': "mat_ok out'" "mtype out' = CV_8UC3" "rows out' = rows bg" "cols out' = cols bg"
      and eff: "\<And>y' x' c'. 0 \<le> y' \<Longrightarrow> y' < rows bg \<Longrightarrow> 0 \<le> x' \<Longrightarrow> x' < cols bg \<Longrightarrow>
          0 \<le> c' \<Longrightarrow> c' < 3 \<Longrightarrow>
          channel_at out' y' x' c' =
            (if y + 1 \<le> y' \<and> y' < rows fg \<and> x' < cols fg then channel_at fg y' x' c'
             else channel_at out1 y' x' c')"
      by auto
    have "overlay_rows bg fg loc y out = Inr out'"
      using lt i False row rest by (subst overlay_rows.simps) (simp add: loc)
    moreover have "channel_at out' y' x' c' =
        (if y \<le> y' \<and> y' < rows fg \<and> x' < cols fg then channel_at fg y' x' c'
         else channel_at out y' x' c')"
      if "0 \<le> y'" "y' < rows bg" "0 \<le> x'" "x' < cols bg" "0 \<le> c'" "c' < 3" for y' x' c'
      using eff [OF that] one [OF that] False that by auto
    ultimately show ?thesis
      using o' by auto
  qed
qed

text \<open>
  Claim C3, as far as it holds. For a background of type \<open>CV_8UC3\<close>, a foreground of
  type \<open>CV_8UC4\<close> of at most \<open>2\<^sup>2\<^sup>9\<close> columns whose fourth channel is 255 at every
  pixel and which has no more rows and no more columns than the background, and the
  location \<open>(0, 0)\<close>, the compositor returns an output whose three channels at
  \<open>(x, y)\<close> are those of the foreground where \<open>(x, y)\<close> lies inside the foreground,
  and those of the background elsewhere; it has the size and type of a background
  that has pixels.
\<close>

theorem opaque_foreground_replaces_background:
  assumes "mat_ok background" "mtype background = CV_8UC3"
    and "mat_ok foreground" "mtype foreground = CV_8UC4"
    and "rows foreground \<le> rows background" "cols foreground \<le> cols background"
    and "\<forall>fY fX. 0 \<le> fY \<and> fY < rows foreground \<and> 0 \<le> fX \<and> fX < cols foreground \<longrightarrow>
           channel_at foreground fY fX 3 = Inr 255"
    and "cols foreground \<le> 2 ^ 29"
  shows "\<exists>out. overlayImage background foreground output \<lparr>pt_x = 0, pt_y = 0\<rparr> = Inr out \<and>
           (0 < rows background \<and> 0 < cols background \<longrightarrow>
              rows out = rows background \<and> cols out = cols background \<and>
              mtype out = CV_8UC3) \<and>
           (\<forall>y x c. 0 \<le> y \<and> y < rows background \<and> 0 \<le> x \<and> x < cols background \<and>
                    0 \<le> c \<and> c < 3 \<longrightarrow>
              (\<exists>v. channel_at out y x c = Inr v \<and>
                 (if y < rows foreground \<and> x < cols foreground
                  then channel_at foreground y x c else channel_at background y x c) = Inr v))"
proof (cases "0 < rows background \<and> 0 < cols background")
  case True
  let ?loc = "\<lparr>pt_x = 0, pt_y = 0\<rparr>"
  have chb: "channels background = 3" and chf: "channels foreground = 4"
    using assms(2,4) by (simp_all add: channels_CV_8UC3 channels_CV_8UC4)
  from copyTo_ok [OF assms(1), where dst = "output"] True
  obtain out0 where cp: "copyTo background output = Inr out0"
    and ok0: "mat_ok out0"
    and sh0: "rows out0 = rows background" "cols out0 = cols background"
      "mtype out0 = mtype background"
    and px0: "\<And>y x c. 0 \<le> y \<Longrightarrow> y < rows background \<Longrightarrow> 0 \<le> x \<Longrightarrow> x < cols background \<Longrightarrow>
        0 \<le> c \<Longrightarrow> c < 3 \<Longrightarrow>
        \<exists>v. channel_at background y x c = Inr v \<and> channel_at out0 y x c = Inr v"
    unfolding chb by blast
  have r0: "0 \<le> rows background"
    using assms(1) by (simp add: mat_ok_def)
  have t0: "mtype out0 = CV_8UC3"
    using sh0 assms(2) by simp
  from overlay_rows_opaque [OF assms(1-4) _ _ assms(7) order_refl r0 ok0 t0 sh0(1,2) assms(8),
      of ?loc]
  obtain out where run: "overlay_rows background foreground ?loc 0 out0 = Inr out"
    and sh: "mtype out = CV_8UC3" "rows out = rows background" "cols out = cols background"
    and eff: "\<And>y x c. 0 \<le> y \<Longrightarrow> y < rows background \<Longrightarrow> 0 \<le> x \<Longrightarrow> x < cols background \<Longrightarrow>
        0 \<le> c \<Longrightarrow> c < 3 \<Longrightarrow>
        channel_at out y x c =
          (if 0 \<le> y \<and> y < rows foreground \<and> x < cols foreground
           then channel_at foreground y x c else channel_at out0 y x c)"
    by auto
  have "overlayImage background foreground output ?loc = Inr out"
    using run by (simp add: overlayImage_def cp)
  moreover have "\<exists>v. channel_at out y x c = Inr v \<and>
      (if y < rows foreground \<and> x < cols foreground
       then channel_at foreground y x c else channel_at background y x c) = Inr v"
    if t: "0 \<le> y" "y < rows background" "0 \<le> x" "x < cols background" "0 \<le> c" "c < 3"
    for y x c
  proof (cases "y < rows foreground \<and> x < cols foreground")
    case True
    have "0 \<le> y * step foreground + x * 4 + c \<and>
        y * step foreground + x * 4 + c < int (length (data foreground))"
      using assms(3) t True by (intro mat_ok_offset) (simp_all add: chf)
    then have "\<exists>v. channel_at foreground y x c = Inr v"
      by (simp add: channel_at_def byte_at_def chf)
    with eff [OF t] True t show ?thesis
      by auto
  next
    case False
    with eff [OF t] px0 [OF t] show ?thesis
      by auto
  qed
  ultimately show ?thesis
    using sh by blast
next
  case False
  let ?loc = "\<lparr>pt_x = 0, pt_y = 0\<rparr>"
  from False have e: "rows background = 0 \<or> cols background = 0"
    using assms(1) by (auto simp: mat_ok_def)
  have f0: "0 \<le> rows foreground" "0 \<le> cols foreground"
    and lim: "rows foreground \<le> INT_MAX" "cols foreground \<le> INT_MAX"
    using assms(3) by (simp_all add: mat_ok_def)
  with e assms(5,6) have "rows foreground = 0 \<or> cols foreground = 0"
    by auto
  then have none: "\<forall>fY fX. 0 \<le> fY \<and> fY < rows foreground \<and> 0 \<le> fX \<and> fX < cols foreground \<longrightarrow>
      channel_at foreground fY fX 3 = Inr 0"
    by auto
  have "overlay_rows background foreground ?loc (max (pt_y ?loc) 0) out = Inr out" for out
    using none lim foreground_width [OF assms(3,4,8)]
    by (rule overlay_rows_transparent) (simp_all add: INT_MIN_def INT_MAX_def)
  then have "overlayImage background foreground output ?loc
      = Inr (output\<lparr>rows := 0, cols := 0, data := []\<rparr>)"
    by (simp add: overlayImage_def copyTo_empty [OF e])
  moreover have "\<not> (0 \<le> y \<and> y < rows background \<and> 0 \<le> x \<and> x < cols background)" for y x
    using e by auto
  ultimately show ?thesis
    using False by blast
qed

theorem opaque_foreground_replaces_background_witness:
  "mat_ok bg_2x3 \<and> mtype bg_2x3 = CV_8UC3 \<and> mat_ok fg_opaque_2x2 \<and>
   mtype fg_opaque_2x2 = CV_8UC4 \<and> rows fg_opaque_2x2 \<le> rows bg_2x3 \<and>
   cols fg_opaque_2x2 \<le> cols bg_2x3 \<and>
   channel_at fg_opaque_2x2 0 0 3 = Inr 255 \<and> channel_at fg_opaque_2x2 0 1 3 = Inr 255 \<and>
   channel_at fg_opaque_2x2 1 0 3 = Inr 255 \<and> channel_at fg_opaque_2x2 1 1 3 = Inr 255 \<and>
   cols fg_opaque_2x2 \<le> 2 ^ 29 \<and>
   (\<exists>out. overlayImage bg_2x3 fg_opaque_2x2 empty_Mat \<lparr>pt_x = 0, pt_y = 0\<rparr> = Inr out \<and>
      rows out = 2 \<and> cols out = 3 \<and> mtype out = CV_8UC3 \<and>
      channel_at out 0 0 0 = Inr 200 \<and> channel_at out 1 1 2 = Inr 211 \<and>
      channel_at out 0 2 0 = Inr 7 \<and> channel_at out 1 2 2 = Inr 18)"
proof -
  have h: "mat_ok bg_2x3" "mtype bg_2x3 = CV_8UC3" "mat_ok fg_opaque_2x2"
    "mtype fg_opaque_2x2 = CV_8UC4" "rows fg_opaque_2x2 \<le> rows bg_2x3"
    "cols fg_opaque_2x2 \<le> cols bg_2x3"
    by code_simp+
  have c: "channel_at fg_opaque_2x2 0 0 3 = Inr 255" "channel_at fg_opaque_2x2 0 1 3 = Inr 255"
    "channel_at fg_opaque_2x2 1 0 3 = Inr 255" "channel_at fg_opaque_2x2 1 1 3 = Inr 255"
    by code_simp+
  have d: "rows fg_opaque_2x2 = 2" "cols fg_opaque_2x2 = 2" "rows bg_2x3 = 2" "cols bg_2x3 = 3"
    by (simp_all add: fg_opaque_2x2_def bg_2x3_def)
  have w: "cols fg_opaque_2x2 \<le> 2 ^ 29"
    by (simp add: d)
  have "fY \<in> {0, 1} \<and> fX \<in> {0, 1}" if "0 \<le> fY \<and> fY < 2 \<and> 0 \<le> fX \<and> fX < 2" for fY fX :: int
    using that by auto
  with c have a: "\<forall>fY fX. 0 \<le> fY \<and> fY < rows fg_opaque_2x2 \<and> 0 \<le> fX \<and>
      fX < cols fg_opaque_2x2 \<longrightarrow> channel_at fg_opaque_2x2 fY fX 3 = Inr 255"
    unfolding d by blast
  have v: "channel_at fg_opaque_2x2 0 0 0 = Inr 200" "channel_at fg_opaque_2x2 1 1 2 = Inr 211"
    "channel_at bg_2x3 0 2 0 = Inr 7" "channel_at bg_2x3 1 2 2 = Inr 18"
    by code_simp+
  from opaque_foreground_replaces_background [OF h a w, of empty_Mat]
  obtain out where
    run: "overlayImage bg_2x3 fg_opaque_2x2 empty_Mat \<lparr>pt_x = 0, pt_y = 0\<rparr> = Inr out"
    and sh: "rows out = 2" "cols out = 3" "mtype out = CV_8UC3"
    and eq: "\<forall>y x c. 0 \<le> y \<and> y < 2 \<and> 0 \<le> x \<and> x < 3 \<and> 0 \<le> c \<and> c < 3 \<longrightarrow>
              (\<exists>v. channel_at out y x c = Inr v \<and>
                 (if y < 2 \<and> x < 2 then channel_at fg_opaque_2x2 y x c
                  else channel_at bg_2x3 y x c) = Inr v)"
    unfolding d by auto
  have "channel_at out y x c =
      (if y < 2 \<and> x < 2 then channel_at fg_opaque_2x2 y x c else channel_at bg_2x3 y x c)"
    if "0 \<le> y \<and> y < 2 \<and> 0 \<le> x \<and> x < 3 \<and> 0 \<le> c \<and> c < 3" for y x c
    using eq that by fastforce
  from this [of 0 0 0] this [of 1 1 2] this [of 0 2 0] this [of 1 2 2]
  have "channel_at out 0 0 0 = Inr 200" "channel_at out 1 1 2 = Inr 211"
    "channel_at out 0 2 0 = Inr 7" "channel_at out 1 2 2 = Inr 18"
    by (simp_all add: v)
  with run sh h c w show ?thesis
    by blast
qed

text \<open>
  Claim C3 names any foreground inside the background. The loop over the columns
  reaches every column of the foreground, or the call has left defined behaviour
  before; and at the column \<open>2\<^sup>2\<^sup>9\<close> of a foreground that wide the product
  \<^verbatim>\<open>fX * foreground.channels()\<close> is \<open>2\<^sup>3\<^sup>1\<close>, which is not an \<^verbatim>\<open>int\<close>.
\<close>

lemma overlay_cols_faults:
  assumes bad: "\<And>out. \<exists>f. blend_pixel bg fg y xs fY (xs - pt_x loc) out = Inl f"
    and x: "x \<le> xs" "xs < cols bg" "xs - pt_x loc < cols fg"
  shows "\<exists>f. overlay_cols bg fg loc y fY x out = Inl f"
  using x(1)
proof (induction "nat (xs - x)" arbitrary: x out)
  case 0
  then have eq: "x = xs" by simp
  show ?case
  proof (cases "int32 (xs - pt_x loc)")
    case (Inl f)
    with x(2) show ?thesis
      unfolding eq by (subst overlay_cols.simps) simp
  next
    case (Inr d)
    then have "d = xs - pt_x loc"
      by (simp add: int32_def split: if_splits)
    moreover obtain f where "blend_pixel bg fg y xs fY (xs - pt_x loc) out = Inl f"
      using bad by blast
    ultimately show ?thesis
      using Inr x(2,3) unfolding eq by (subst overlay_cols.simps) simp
  qed
next
  case (Suc n)
  then have lt: "x < xs" by linarith
  with x(2) have ltc: "x < cols bg" by linarith
  show ?case
  proof (cases "int32 (x - pt_x loc)")
    case (Inl f)
    with ltc show ?thesis
      by (subst overlay_cols.simps) simp
  next
    case (Inr d)
    then have d: "d = x - pt_x loc"
      by (simp add: int32_def split: if_splits)
    with lt x(3) have nb: "\<not> cols fg \<le> d" by linarith
    show ?thesis
    proof (cases "blend_pixel bg fg y x fY d out")
      case (Inl f)
      with ltc Inr nb show ?thesis
        by (subst overlay_cols.simps) simp
    next
      case px: (Inr out')
      have "n = nat (xs - (x + 1))" "x + 1 \<le> xs"
        using Suc.hyps(2) lt by linarith+
      from Suc.hyps(1) [OF this, of out']
      obtain f where "overlay_cols bg fg loc y fY (x + 1) out' = Inl f"
        by blast
      with ltc Inr nb px show ?thesis
        by (subst overlay_cols.simps) simp
    qed
  qed
qed

theorem opaque_foreground_counterexample:
  "mat_ok bg_wide \<and> mtype bg_wide = CV_8UC3 \<and> mat_ok fg_wide_opaque \<and>
   mtype fg_wide_opaque = CV_8UC4 \<and> rows fg_wide_opaque \<le> rows bg_wide \<and>
   cols fg_wide_opaque \<le> cols bg_wide \<and> set (data fg_wide_opaque) \<subseteq> {255} \<and>
   (\<exists>f. overlayImage bg_wide fg_wide_opaque empty_Mat \<lparr>pt_x = 0, pt_y = 0\<rparr> = Inl f)"
proof -
  let ?loc = "\<lparr>pt_x = 0, pt_y = 0\<rparr>"
  have b: "rows bg_wide = 1" "cols bg_wide = 2 ^ 29 + 1" "mtype bg_wide = CV_8UC3"
    by (simp_all add: bg_wide_def CV_8UC3_def)
  have f: "rows fg_wide_opaque = 1" "cols fg_wide_opaque = 2 ^ 29 + 1"
    "mtype fg_wide_opaque = CV_8UC4" "channels fg_wide_opaque = 4"
    by (simp_all add: fg_wide_opaque_def CV_8UC4_def channels_def)
  have okb: "mat_ok bg_wide"
    by (simp add: mat_ok_def bg_wide_def channels_def INT_MAX_def)
  have okf: "mat_ok fg_wide_opaque"
    by (simp add: mat_ok_def fg_wide_opaque_def channels_def INT_MAX_def)
  have all: "set (data fg_wide_opaque) \<subseteq> {255}"
    by (simp add: fg_wide_opaque_def)
  from copyTo_ok [OF okb, of empty_Mat] b
  obtain out0 where cp: "copyTo bg_wide empty_Mat = Inr out0"
    by auto
  have bad: "\<exists>f. blend_pixel bg_wide fg_wide_opaque 0 (2 ^ 29) 0 (2 ^ 29 - pt_x ?loc) out = Inl f"
    for out
    by (simp add: blend_pixel_def f int32_def INT_MAX_def)
  have "\<exists>f. overlay_cols bg_wide fg_wide_opaque ?loc 0 0 0 out0 = Inl f"
    using bad by (rule overlay_cols_faults) (simp_all add: b f)
  then obtain e where "overlay_cols bg_wide fg_wide_opaque ?loc 0 0 0 out0 = Inl e"
    by blast
  then have "overlay_rows bg_wide fg_wide_opaque ?loc 0 out0 = Inl e"
    by (subst overlay_rows.simps) (simp add: b f int32_def INT_MIN_def INT_MAX_def)
  then have "overlayImage bg_wide fg_wide_opaque empty_Mat ?loc = Inl e"
    by (simp add: overlayImage_def cp)
  with okb okf b f all show ?thesis
    by auto
qed

subsection \<open>The early exits\<close>

lemma full_scan_cols_outside_rows:
  assumes "\<not> (0 \<le> y - pt_y loc \<and> y - pt_y loc < rows fg)"
  shows "full_scan_cols bg fg loc y x out = Inr out"
  using assms
proof (induction "nat (cols bg - x)" arbitrary: x)
  case 0
  then show ?case
    by (subst full_scan_cols.simps) auto
next
  case (Suc n)
  then have "n = nat (cols bg - (x + 1))"
    by linarith
  from Suc.hyps(1) [OF this Suc.prems] Suc.prems show ?case
    by (subst full_scan_cols.simps) auto
qed

lemma full_scan_cols_past:
  assumes "cols fg \<le> x - pt_x loc"
  shows "full_scan_cols bg fg loc y x out = Inr out"
  using assms
proof (induction "nat (cols bg - x)" arbitrary: x)
  case 0
  then show ?case
    by (subst full_scan_cols.simps) auto
next
  case (Suc n)
  then have "n = nat (cols bg - (x + 1))" "cols fg \<le> x + 1 - pt_x loc"
    by linarith+
  from Suc.hyps(1) [OF this] Suc.prems show ?case
    by (subst full_scan_cols.simps) auto
qed

lemma full_scan_cols_before:
  assumes "x \<le> x'" "x' \<le> pt_x loc"
  shows "full_scan_cols bg fg loc y x out = full_scan_cols bg fg loc y x' out"
  using assms
proof (induction "nat (x' - x)" arbitrary: x)
  case 0
  then show ?case by simp
next
  case (Suc n)
  then have lt: "x < x'" by linarith
  show ?case
  proof (cases "x < cols bg")
    case True
    have "n = nat (x' - (x + 1))" "x + 1 \<le> x'"
      using Suc.hyps(2) by linarith+
    from Suc.hyps(1) [OF this Suc.prems(2)] True lt Suc.prems(2) show ?thesis
      by (subst full_scan_cols.simps) auto
  next
    case False
    with lt have "\<not> x' < cols bg" by linarith
    with False show ?thesis
      by (simp add: full_scan_cols.simps [of bg fg loc y x out]
          full_scan_cols.simps [of bg fg loc y x' out])
  qed
qed

lemma overlay_cols_full_scan:
  assumes "0 \<le> y - pt_y loc" "y - pt_y loc < rows fg"
    and "pt_x loc \<le> x" "x - pt_x loc \<le> INT_MAX" "cols fg \<le> INT_MAX"
  shows "overlay_cols bg fg loc y (y - pt_y loc) x out = full_scan_cols bg fg loc y x out"
  using assms(3,4)
proof (induction "nat (cols bg - x)" arbitrary: x out)
  case 0
  then show ?case
    by (simp add: overlay_cols.simps [of bg fg loc y _ x out]
        full_scan_cols.simps [of bg fg loc y x out])
next
  case (Suc n)
  then have lt: "x < cols bg" by linarith
  have i: "int32 (x - pt_x loc) = Inr (x - pt_x loc)"
    using Suc.prems by (simp add: int32_def INT_MIN_def)
  show ?case
  proof (cases "cols fg \<le> x - pt_x loc")
    case True
    then have "cols fg \<le> x + 1 - pt_x loc" by linarith
    then have "full_scan_cols bg fg loc y (x + 1) out = Inr out"
      by (rule full_scan_cols_past)
    with True lt i show ?thesis
      by (simp add: overlay_cols.simps [of bg fg loc y _ x out]
          full_scan_cols.simps [of bg fg loc y x out])
  next
    case False
    have n: "n = nat (cols bg - (x + 1))" "pt_x loc \<le> x + 1" "x + 1 - pt_x loc \<le> INT_MAX"
      using Suc.hyps(2) Suc.prems False assms(5) by linarith+
    show ?thesis
    proof (cases "blend_pixel bg fg y x (y - pt_y loc) (x - pt_x loc) out")
      case (Inl f)
      with False lt i Suc.prems assms(1,2) show ?thesis
        by (simp add: overlay_cols.simps [of bg fg loc y _ x out]
            full_scan_cols.simps [of bg fg loc y x out])
    next
      case (Inr out')
      with False lt i Suc.prems assms(1,2) Suc.hyps(1) [OF n, of out'] show ?thesis
        by (simp add: overlay_cols.simps [of bg fg loc y _ x out]
            full_scan_cols.simps [of bg fg loc y x out])
    qed
  qed
qed

lemma full_scan_rows_past:
  assumes "rows fg \<le> y - pt_y loc"
  shows "full_scan_rows bg fg loc y out = Inr out"
  using assms
proof (induction "nat (rows bg - y)" arbitrary: y)
  case 0
  then show ?case
    by (subst full_scan_rows.simps) auto
next
  case (Suc n)
  then have "n = nat (rows bg - (y + 1))" "rows fg \<le> y + 1 - pt_y loc"
    by linarith+
  from Suc.hyps(1) [OF this] Suc.prems
    full_scan_cols_outside_rows [of y loc fg bg 0 out]
  show ?case
    by (subst full_scan_rows.simps) auto
qed

lemma full_scan_rows_before:
  assumes "y \<le> y'" "y' \<le> pt_y loc"
  shows "full_scan_rows bg fg loc y out = full_scan_rows bg fg loc y' out"
  using assms
proof (induction "nat (y' - y)" arbitrary: y)
  case 0
  then show ?case by simp
next
  case (Suc n)
  then have lt: "y < y'" by linarith
  show ?case
  proof (cases "y < rows bg")
    case True
    have "n = nat (y' - (y + 1))" "y + 1 \<le> y'"
      using Suc.hyps(2) by linarith+
    from Suc.hyps(1) [OF this Suc.prems(2)] True lt Suc.prems(2)
      full_scan_cols_outside_rows [of y loc fg bg 0 out]
    show ?thesis
      by (subst full_scan_rows.simps) auto
  next
    case False
    with lt have "\<not> y' < rows bg" by linarith
    with False show ?thesis
      by (simp add: full_scan_rows.simps [of bg fg loc y out]
          full_scan_rows.simps [of bg fg loc y' out])
  qed
qed

lemma overlay_rows_full_scan:
  assumes "INT_MIN < pt_x loc" "rows fg \<le> INT_MAX" "cols fg \<le> INT_MAX"
    and "pt_y loc \<le> y" "y - pt_y loc \<le> INT_MAX"
  shows "overlay_rows bg fg loc y out = full_scan_rows bg fg loc y out"
  using assms(4,5)
proof (induction "nat (rows bg - y)" arbitrary: y out)
  case 0
  then show ?case
    by (simp add: overlay_rows.simps [of bg fg loc y out]
        full_scan_rows.simps [of bg fg loc y out])
next
  case (Suc n)
  then have lt: "y < rows bg" by linarith
  have i: "int32 (y - pt_y loc) = Inr (y - pt_y loc)"
    using Suc.prems by (simp add: int32_def INT_MIN_def)
  show ?case
  proof (cases "rows fg \<le> y - pt_y loc")
    case True
    then have "full_scan_rows bg fg loc y out = Inr out"
      by (rule full_scan_rows_past)
    with True lt i show ?thesis
      by (simp add: overlay_rows.simps [of bg fg loc y out])
  next
    case False
    have n: "n = nat (rows bg - (y + 1))" "pt_y loc \<le> y + 1" "y + 1 - pt_y loc \<le> INT_MAX"
      using Suc.hyps(2) Suc.prems False assms(2) by linarith+
    have x0: "pt_x loc \<le> max (pt_x loc) 0" "max (pt_x loc) 0 - pt_x loc \<le> INT_MAX"
      using assms(1) by (simp_all add: INT_MIN_def INT_MAX_def max_def)
    have "overlay_cols bg fg loc y (y - pt_y loc) (max (pt_x loc) 0) out
        = full_scan_cols bg fg loc y (max (pt_x loc) 0) out"
      using Suc.prems(1) False x0 assms(3) by (intro overlay_cols_full_scan) auto
    also have "\<dots> = full_scan_cols bg fg loc y 0 out"
    proof (cases "0 \<le> pt_x loc")
      case True
      then show ?thesis
        using full_scan_cols_before [of 0 "pt_x loc" loc bg fg y out] by (simp add: max_def)
    next
      case False
      then show ?thesis by (simp add: max_def)
    qed
    finally have row: "overlay_cols bg fg loc y (y - pt_y loc) (max (pt_x loc) 0) out
        = full_scan_cols bg fg loc y 0 out" .
    show ?thesis
    proof (cases "full_scan_cols bg fg loc y 0 out")
      case (Inl f)
      with False lt i row show ?thesis
        by (simp add: overlay_rows.simps [of bg fg loc y out]
            full_scan_rows.simps [of bg fg loc y out])
    next
      case (Inr out')
      with False lt i row Suc.hyps(1) [OF n, of out'] show ?thesis
        by (simp add: overlay_rows.simps [of bg fg loc y out]
            full_scan_rows.simps [of bg fg loc y out])
    qed
  qed
qed

text \<open>
  Claim C7, as far as it holds. For every background, every foreground whose
  dimensions are \<^verbatim>\<open>int\<close>s and every location whose two coordinates are greater
  than \<open>INT_MIN\<close>, the compositor with its two early exits returns what the full
  scan of the specification returns: the same output, or a fault when that faults.
\<close>

theorem early_exit_is_full_scan:
  assumes "INT_MIN < pt_x location" "INT_MIN < pt_y location"
    and "rows foreground \<le> INT_MAX" "cols foreground \<le> INT_MAX"
  shows "overlayImage background foreground output location
           = full_scan_overlay background foreground output location"
proof -
  have y0: "pt_y location \<le> max (pt_y location) 0"
    "max (pt_y location) 0 - pt_y location \<le> INT_MAX"
    using assms(2) by (simp_all add: INT_MIN_def INT_MAX_def max_def)
  have "overlay_rows background foreground location (max (pt_y location) 0) out
      = full_scan_rows background foreground location 0 out" for out
  proof -
    have "overlay_rows background foreground location (max (pt_y location) 0) out
        = full_scan_rows background foreground location (max (pt_y location) 0) out"
      using assms(1,3,4) y0 by (rule overlay_rows_full_scan)
    also have "\<dots> = full_scan_rows background foreground location 0 out"
    proof (cases "0 \<le> pt_y location")
      case True
      then show ?thesis
        using full_scan_rows_before [of 0 "pt_y location" location background foreground out]
        by (simp add: max_def)
    next
      case False
      then show ?thesis by (simp add: max_def)
    qed
    finally show ?thesis .
  qed
  then show ?thesis
    by (simp add: overlayImage_def full_scan_overlay_def cong: sum.case_cong)
qed

theorem early_exit_is_full_scan_witness:
  "INT_MIN < pt_x \<lparr>pt_x = 1, pt_y = - 1\<rparr> \<and> INT_MIN < pt_y \<lparr>pt_x = 1, pt_y = - 1\<rparr> \<and>
   rows fg_mixed_2x2 \<le> INT_MAX \<and> cols fg_mixed_2x2 \<le> INT_MAX \<and>
   overlayImage bg_2x3 fg_mixed_2x2 empty_Mat \<lparr>pt_x = 1, pt_y = - 1\<rparr>
     = full_scan_overlay bg_2x3 fg_mixed_2x2 empty_Mat \<lparr>pt_x = 1, pt_y = - 1\<rparr> \<and>
   full_scan_overlay bg_2x3 fg_mixed_2x2 empty_Mat \<lparr>pt_x = 1, pt_y = - 1\<rparr>
     = Inr \<lparr>rows = 2, cols = 3, mtype = 16, step = 9,
            data = [1, 2, 3, 4, 5, 6, 100, 101, 102, 10, 11, 12, 13, 14, 15, 16, 17, 18]\<rparr>"
proof -
  have l: "INT_MIN < pt_x \<lparr>pt_x = 1, pt_y = - 1\<rparr>" "INT_MIN < pt_y \<lparr>pt_x = 1, pt_y = - 1\<rparr>"
    by (simp_all add: INT_MIN_def)
  have f: "rows fg_mixed_2x2 \<le> INT_MAX" "cols fg_mixed_2x2 \<le> INT_MAX"
    by (simp_all add: fg_mixed_2x2_def INT_MAX_def)
  have v: "full_scan_overlay bg_2x3 fg_mixed_2x2 empty_Mat \<lparr>pt_x = 1, pt_y = - 1\<rparr>
     = Inr \<lparr>rows = 2, cols = 3, mtype = 16, step = 9,
            data = [1, 2, 3, 4, 5, 6, 100, 101, 102, 10, 11, 12, 13, 14, 15, 16, 17, 18]\<rparr>"
    by code_simp
  from early_exit_is_full_scan [OF l f, of bg_2x3 empty_Mat] l f v show ?thesis
    by simp
qed

text \<open>
  Claim C7 names every location. At \<open>location.x = INT_MIN\<close> the first column is
  \<open>x = max(location.x, 0) = 0\<close> and \<open>fX = x - location.x\<close> overflows in the code,
  while the full scan finds the foreground coordinate \<open>2\<^sup>3\<^sup>1\<close> outside the
  foreground and returns the background.
\<close>

theorem early_exit_counterexample:
  "overlayImage bg_1x1 fg_clear_1x1 empty_Mat \<lparr>pt_x = INT_MIN, pt_y = 0\<rparr>
     = Inl SignedOverflow \<and>
   full_scan_overlay bg_1x1 fg_clear_1x1 empty_Mat \<lparr>pt_x = INT_MIN, pt_y = 0\<rparr>
     = Inr bg_1x1"
  by code_simp

end
